theory Spec2Isabelle
  imports
    Main
    "HOL-Library.Word"
    "HOL-Library.Char_ord"
    "HOL-Library.List_Lexorder"
    "HOL-Library.Multiset"
    "HOL-Library.Sublist"
begin

unbundle bit_operations_syntax

chapter \<open>The remote-configuration client and the agent profiles of the Datadog operator\<close>

text \<open>
  A shallow embedding of \<^verbatim>\<open>pkg/config/remote/client.go\<close> (the polling client) and of the
  agent-profile selection (\<^verbatim>\<open>ProfilesToApply\<close>). Go functions become HOL functions; a
  Go \<^verbatim>\<open>(value, error)\<close> return is a pair whose second component is an \<open>option\<close>
  (\<open>None\<close> is \<^verbatim>\<open>nil\<close>); a run-time panic is the value \<open>Panic\<close>; what a function does
  to the outside world (locking the mutex, calling a listener) is a list of events it
  returns.
\<close>

section \<open>Common types\<close>

type_synonym byte = "8 word"

text \<open>A Go call either panics or returns.\<close>

datatype 'a outcome = Panic | Returns 'a

section \<open>Client identifiers: \<^verbatim>\<open>generateID\<close>\<close>

definition idSize :: nat where
  "idSize = 21"

definition idAlphabet :: string where
  "idAlphabet = ''_-0123456789abcdefghijklmnopqrstuvwxyzABCDEFGHIJKLMNOPQRSTUVWXYZ''"

text \<open>
  \<^verbatim>\<open>rand.Read(bytes)\<close> writes into the buffer it is given: the buffer keeps its length, and
  the bytes the random source delivered overwrite its prefix. \<open>rnd\<close> is what the source
  delivered, \<open>buf\<close> the buffer before the call.
\<close>

definition rand_Read :: "byte list \<Rightarrow> byte list \<Rightarrow> byte list" where
  "rand_Read buf rnd = take (length buf) rnd @ drop (length rnd) buf"

text \<open>
  The loop \<^verbatim>\<open>for i := 0; i < idSize; i++ { id[i] = idAlphabet[bytes[i]&63] }\<close> over the
  indices still to visit. Each of the three index expressions is bounds-checked as Go
  does it: out of range is a panic.
\<close>

fun generateID_loop :: "byte list \<Rightarrow> nat list \<Rightarrow> string \<Rightarrow> string outcome" where
  "generateID_loop bytes [] ident = Returns ident"
| "generateID_loop bytes (i # rest) ident =
     (if i < length bytes then
        (let k = unat ((bytes ! i) AND 63) in
         if k < length idAlphabet then
           (if i < length ident
            then generateID_loop bytes rest (ident[i := idAlphabet ! k])
            else Panic)
         else Panic)
      else Panic)"

text \<open>
  \<^verbatim>\<open>generateID\<close>: \<open>rnd\<close> and \<open>err\<close> are what \<^verbatim>\<open>crypto/rand\<close> answers. An error of the
  random source is a panic; otherwise the identifier is \<^verbatim>\<open>string(id[:idSize])\<close>.
\<close>

definition generateID :: "byte list \<Rightarrow> 'e option \<Rightarrow> string outcome" where
  "generateID rnd err =
     (let bytes = rand_Read (replicate idSize 0) rnd in
      case err of
        Some e \<Rightarrow> Panic
      | None \<Rightarrow>
          (case generateID_loop bytes [0..<idSize] (replicate idSize (CHR 0x00)) of
             Panic \<Rightarrow> Panic
           | Returns ident \<Rightarrow> if idSize \<le> length ident then Returns (take idSize ident) else Panic))"

section \<open>The packages the client calls\<close>

subsection \<open>Wire messages of package \<^verbatim>\<open>pbgo\<close>\<close>

text \<open>
  The message types are declared outside the files at hand; their fields are the ones
  \<^verbatim>\<open>client.go\<close> reads and writes. Every field is named \<open>tag_GoName\<close>. Integer fields
  are 64-bit words: the conversions \<^verbatim>\<open>uint64(.)\<close> and \<^verbatim>\<open>int64(.)\<close> of \<^verbatim>\<open>newUpdateRequest\<close>
  between 64-bit integer types keep the bits and change only how they are read
  (\<open>unat\<close> or \<open>sint\<close>).
\<close>

record TargetFileHash =
  tfh_Algorithm :: string
  tfh_Hash :: string

record TargetFileMeta =
  tfm_Path :: string
  tfm_Length :: "64 word"
  tfm_Hashes :: "TargetFileHash list"

record pbConfigState =
  pcs_Id :: string
  pcs_Version :: "64 word"
  pcs_Product :: string

record ClientState =
  st_RootVersion :: "64 word"
  st_TargetsVersion :: "64 word"
  st_ConfigStates :: "pbConfigState list"
  st_HasError :: bool
  st_Error :: string
  st_BackendClientState :: "byte list"

record ClientAgent =
  ca_Name :: string
  ca_Version :: string
  ca_ClusterName :: string
  ca_ClusterId :: string
  ca_CwsWorkloads :: "string list"

record pbClient =
  pc_State :: ClientState
  pc_Id :: string
  pc_Products :: "string list"
  pc_IsAgent :: bool
  pc_IsTracer :: bool
  pc_ClientAgent :: ClientAgent

record ClientGetConfigsRequest =
  req_Client :: pbClient
  req_CachedTargetFiles :: "TargetFileMeta list"

record File =
  file_Path :: string
  file_Raw :: "byte list"

text \<open>\<open>rsp_TargetFiles\<close> is a Go slice: \<open>None\<close> is the \<^verbatim>\<open>nil\<close> slice, \<open>Some []\<close> an empty one.\<close>

record ClientGetConfigsResponse =
  rsp_Roots :: "byte list list"
  rsp_Targets :: "byte list"
  rsp_TargetFiles :: "File list option"
  rsp_ClientConfigs :: "string list"

subsection \<open>Package \<^verbatim>\<open>state\<close>: the repository's data\<close>

text \<open>
  \<open>cf_Hashes\<close> is a Go map from algorithm to digest; the list holds its entries in the
  order in which the runtime's \<^verbatim>\<open>range\<close> visits them.
\<close>

record CachedFile =
  cf_Path :: string
  cf_Length :: "64 word"
  cf_Hashes :: "(string \<times> byte list) list"

record ConfigState =
  cs_ID :: string
  cs_Version :: "64 word"
  cs_Product :: string

record RepositoryState =
  rs_Configs :: "ConfigState list"
  rs_CachedFiles :: "CachedFile list"
  rs_TargetsVersion :: "64 word"
  rs_RootsVersion :: "64 word"
  rs_OpaqueBackendState :: "byte list"

record Update =
  upd_TUFRoots :: "byte list list"
  upd_TUFTargets :: "byte list"
  upd_TargetFiles :: "string \<rightharpoonup> byte list"
  upd_ClientConfigs :: "string list"

subsection \<open>What the client calls and does not define\<close>

text \<open>
  The repository (\<^verbatim>\<open>state.Repository\<close>), the updater behind the \<^verbatim>\<open>ConfigUpdater\<close>
  interface, the Go \<^verbatim>\<open>error\<close> values and the helpers of packages \<^verbatim>\<open>meta\<close> and \<^verbatim>\<open>data\<close>
  are parameters of the model: \<open>'st\<close> is the repository's state, \<open>'dc\<close> what
  \<^verbatim>\<open>DebugConfigs()\<close> returns, \<open>'u\<close> the updater's state and \<open>'e\<close> the type of errors. A
  method that returns \<^verbatim>\<open>(value, error)\<close> returns a pair; one that changes its receiver
  returns the new receiver as well. \<^verbatim>\<open>CurrentState\<close> and \<^verbatim>\<open>DebugConfigs\<close> only read.
\<close>

datatype Context = Live | Cancelled

record ('st, 'dc, 'u, 'e) world =
  state_NewRepository :: "byte list \<Rightarrow> 'st \<times> 'e option"
  state_NewUnverifiedRepository :: "'st \<times> 'e option"
  meta_RootsDirector_Last :: "byte list"
  data_ProductListToString :: "string list \<Rightarrow> string list"
  state_CurrentState :: "'st \<Rightarrow> RepositoryState \<times> 'e option"
  state_Update :: "'st \<Rightarrow> Update \<Rightarrow> (string list \<times> 'e option) \<times> 'st"
  state_DebugConfigs :: "'st \<Rightarrow> 'dc"
  state_ProductDebug :: string
  updater_ClientGetConfigs ::
    "'u \<Rightarrow> Context \<Rightarrow> ClientGetConfigsRequest option
       \<Rightarrow> (ClientGetConfigsResponse option \<times> 'e option) \<times> 'u"
  error_Error :: "'e \<Rightarrow> string"

subsection \<open>\<^verbatim>\<open>encoding/hex\<close> and \<^verbatim>\<open>time\<close>\<close>

definition hextable :: string where
  "hextable = ''0123456789abcdef''"

definition hex_EncodeToString :: "byte list \<Rightarrow> string" where
  "hex_EncodeToString src =
     concat (map (\<lambda>v. [hextable ! unat (drop_bit 4 v), hextable ! unat (v AND 0x0f)]) src)"

text \<open>A \<^verbatim>\<open>time.Duration\<close> counts nanoseconds.\<close>

type_synonym Duration = int

definition Second :: Duration where
  "Second = 1000000000"

section \<open>The client\<close>

text \<open>
  \<open>'l\<close> names the listeners (Go closures); what a listener does when it is called is
  its own business and not part of the client. \<open>startupSync\<close> is the \<^verbatim>\<open>sync.Once\<close>: \<open>True\<close>
  once its \<^verbatim>\<open>Do\<close> has run. \<open>ctx\<close> is the context that \<^verbatim>\<open>close\<close> cancels. The commented-out
  fields of the Go struct are absent here as well.
\<close>

record ('st, 'l, 'u, 'e) Client =
  ID :: string
  startupSync :: bool
  ctx :: Context
  agentName :: string
  agentVersion :: string
  products :: "string list"
  clusterName :: string
  clusterID :: string
  cwsWorkloads :: "string list"
  pollInterval :: Duration
  lastUpdateError :: "'e option"
  updater :: 'u
  state :: 'st
  debugListeners :: "'l list"

text \<open>
  What a call does besides computing: the mutex \<^verbatim>\<open>c.m\<close>, the accesses to the listener
  list, the listeners called, the goroutine started and the timers armed.
\<close>

datatype ('l, 'dc) event =
    MutexLock
  | MutexUnlock
  | ListenersRead
  | ListenersWrite
  | Invoke 'l 'dc
  | Go_pollLoop
  | After Duration

subsection \<open>\<^verbatim>\<open>newClient\<close>, \<^verbatim>\<open>NewClient\<close>\<close>

definition newClient ::
  "('st, 'dc, 'u, 'e) world \<Rightarrow> byte list \<Rightarrow> 'e option \<Rightarrow> string \<Rightarrow> 'u \<Rightarrow> bool \<Rightarrow> string
     \<Rightarrow> string list \<Rightarrow> Duration \<Rightarrow> (('st, 'l, 'u, 'e) Client option \<times> 'e option) outcome" where
  "newClient w rnd rerr agentName' updater' doTufVerification agentVersion' products' pollInterval' =
     (let (repository, err) =
            (if doTufVerification then state_NewRepository w (meta_RootsDirector_Last w)
             else state_NewUnverifiedRepository w)
      in case err of
           Some e \<Rightarrow> Returns (None, Some e)
         | None \<Rightarrow>
             (case generateID rnd rerr of
                Panic \<Rightarrow> Panic
              | Returns ident \<Rightarrow>
                  Returns (Some \<lparr>
                    ID = ident,
                    startupSync = False,
                    ctx = Live,
                    agentName = agentName',
                    agentVersion = agentVersion',
                    products = data_ProductListToString w products',
                    clusterName = [],
                    clusterID = [],
                    cwsWorkloads = [],
                    pollInterval = pollInterval',
                    lastUpdateError = None,
                    updater = updater',
                    state = repository,
                    debugListeners = [] \<rparr>, None)))"

definition NewClient ::
  "('st, 'dc, 'u, 'e) world \<Rightarrow> byte list \<Rightarrow> 'e option \<Rightarrow> string \<Rightarrow> 'u \<Rightarrow> string
     \<Rightarrow> string list \<Rightarrow> Duration \<Rightarrow> (('st, 'l, 'u, 'e) Client option \<times> 'e option) outcome" where
  "NewClient w rnd rerr agentName' updater' agentVersion' products' pollInterval' =
     newClient w rnd rerr agentName' updater' True agentVersion' products' pollInterval'"

subsection \<open>\<^verbatim>\<open>Start\<close>, \<^verbatim>\<open>Close\<close>, \<^verbatim>\<open>RegisterDebug\<close>\<close>

definition startFn :: "('st, 'l, 'u, 'e) Client \<Rightarrow> ('l, 'dc) event list" where
  "startFn c = [Go_pollLoop]"

text \<open>\<^verbatim>\<open>c.startupSync.Do(c.startFn)\<close>: the function runs if the \<^verbatim>\<open>Once\<close> has not run yet.\<close>

definition Start ::
  "('st, 'l, 'u, 'e) Client \<Rightarrow> ('st, 'l, 'u, 'e) Client \<times> ('l, 'dc) event list" where
  "Start c = (if startupSync c then (c, []) else (c\<lparr>startupSync := True\<rparr>, startFn c))"

definition Close :: "('st, 'l, 'u, 'e) Client \<Rightarrow> ('st, 'l, 'u, 'e) Client" where
  "Close c = c\<lparr>ctx := Cancelled\<rparr>"

definition RegisterDebug ::
  "('st, 'dc, 'u, 'e) world \<Rightarrow> ('st, 'l, 'u, 'e) Client \<Rightarrow> 'l
     \<Rightarrow> ('st, 'l, 'u, 'e) Client \<times> ('l, 'dc) event list" where
  "RegisterDebug w c fn =
     (c\<lparr>debugListeners := debugListeners c @ [fn]\<rparr>,
      [MutexLock, ListenersRead, ListenersWrite,
       Invoke fn (state_DebugConfigs w (state c)), MutexUnlock])"

subsection \<open>\<^verbatim>\<open>newUpdateRequest\<close>\<close>

text \<open>Each \<^verbatim>\<open>for ... range\<close> that appends to a slice is a left fold that appends.\<close>

definition pbHashes_of :: "(string \<times> byte list) list \<Rightarrow> TargetFileHash list" where
  "pbHashes_of hashes =
     foldl (\<lambda>pbHashes (alg, hash).
              pbHashes @ [\<lparr>tfh_Algorithm = alg, tfh_Hash = hex_EncodeToString hash\<rparr>])
       [] hashes"

definition pbCachedFiles_of :: "CachedFile list \<Rightarrow> TargetFileMeta list" where
  "pbCachedFiles_of files =
     foldl (\<lambda>pbCachedFiles f.
              pbCachedFiles @
                [\<lparr>tfm_Path = cf_Path f, tfm_Length = cf_Length f,
                  tfm_Hashes = pbHashes_of (cf_Hashes f)\<rparr>])
       [] files"

definition pbConfigState_of :: "ConfigState list \<Rightarrow> pbConfigState list" where
  "pbConfigState_of configs =
     foldl (\<lambda>pbConfigState f.
              pbConfigState @
                [\<lparr>pcs_Id = cs_ID f, pcs_Version = cs_Version f, pcs_Product = cs_Product f\<rparr>])
       [] configs"

definition newUpdateRequest ::
  "('st, 'dc, 'u, 'e) world \<Rightarrow> ('st, 'l, 'u, 'e) Client
     \<Rightarrow> ClientGetConfigsRequest option \<times> 'e option" where
  "newUpdateRequest w c =
     (case state_CurrentState w (state c) of
        (s, Some err) \<Rightarrow> (None, Some err)
      | (s, None) \<Rightarrow>
          (let pbCachedFiles = pbCachedFiles_of (rs_CachedFiles s);
               hasError = (lastUpdateError c \<noteq> None);
               errMsg = (case lastUpdateError c of None \<Rightarrow> [] | Some e \<Rightarrow> error_Error w e);
               pbConfigState = pbConfigState_of (rs_Configs s)
           in (Some \<lparr>
                 req_Client = \<lparr>
                   pc_State = \<lparr>
                     st_RootVersion = rs_RootsVersion s,
                     st_TargetsVersion = rs_TargetsVersion s,
                     st_ConfigStates = pbConfigState,
                     st_HasError = hasError,
                     st_Error = errMsg,
                     st_BackendClientState = rs_OpaqueBackendState s \<rparr>,
                   pc_Id = ID c,
                   pc_Products = products c,
                   pc_IsAgent = True,
                   pc_IsTracer = False,
                   pc_ClientAgent = \<lparr>
                     ca_Name = agentName c,
                     ca_Version = ''9.9.9'',
                     ca_ClusterName = clusterName c,
                     ca_ClusterId = clusterID c,
                     ca_CwsWorkloads = cwsWorkloads c \<rparr> \<rparr>,
                 req_CachedTargetFiles = pbCachedFiles \<rparr>, None)))"

subsection \<open>\<^verbatim>\<open>applyUpdate\<close>, \<^verbatim>\<open>containsProduct\<close>, \<^verbatim>\<open>update\<close>\<close>

text \<open>
  \<^verbatim>\<open>applyUpdate\<close> fills \<^verbatim>\<open>fileMap\<close> file by file (a later file with the same path
  replaces an earlier one; ranging over a \<^verbatim>\<open>nil\<close> slice visits nothing) and hands the
  update to the repository, which returns the changed products, an error, and its new
  state.
\<close>

definition applyUpdate ::
  "('st, 'dc, 'u, 'e) world \<Rightarrow> ('st, 'l, 'u, 'e) Client \<Rightarrow> ClientGetConfigsResponse
     \<Rightarrow> (string list \<times> 'e option) \<times> 'st" where
  "applyUpdate w c pbUpdate =
     (let fileMap =
            foldl (\<lambda>m f. m(file_Path f \<mapsto> file_Raw f)) Map.empty
              (case rsp_TargetFiles pbUpdate of None \<Rightarrow> [] | Some fs \<Rightarrow> fs);
          update = \<lparr>
            upd_TUFRoots = rsp_Roots pbUpdate,
            upd_TUFTargets = rsp_Targets pbUpdate,
            upd_TargetFiles = fileMap,
            upd_ClientConfigs = rsp_ClientConfigs pbUpdate \<rparr>
      in state_Update w (state c) update)"

fun containsProduct :: "string list \<Rightarrow> string \<Rightarrow> bool" where
  "containsProduct [] product = False"
| "containsProduct (p # rest) product = (if product = p then True else containsProduct rest product)"

text \<open>
  The end of \<^verbatim>\<open>update\<close>, from \<^verbatim>\<open>c.m.Lock()\<close> on: the deferred \<^verbatim>\<open>Unlock\<close> runs last. The
  list is read twice when the product is among the changed ones (its length for the
  log line, then the \<^verbatim>\<open>range\<close>), and each listener gets \<^verbatim>\<open>c.state.DebugConfigs()\<close>.
\<close>

definition notifyListeners ::
  "('st, 'dc, 'u, 'e) world \<Rightarrow> ('st, 'l, 'u, 'e) Client \<Rightarrow> string list \<Rightarrow> ('l, 'dc) event list" where
  "notifyListeners w c changedProducts =
     [MutexLock] @
     (if containsProduct changedProducts (state_ProductDebug w)
      then [ListenersRead, ListenersRead] @
           map (\<lambda>listener. Invoke listener (state_DebugConfigs w (state c))) (debugListeners c)
      else []) @
     [MutexUnlock]"

text \<open>
  \<^verbatim>\<open>update\<close> returns what the Go function returns (\<open>None\<close> is \<^verbatim>\<open>nil\<close>) or panics, together
  with the client as the call leaves it and the events of the call. A \<^verbatim>\<open>nil\<close> response
  with a \<^verbatim>\<open>nil\<close> error panics at \<^verbatim>\<open>response.TargetFiles\<close>.
\<close>

definition update ::
  "('st, 'dc, 'u, 'e) world \<Rightarrow> ('st, 'l, 'u, 'e) Client
     \<Rightarrow> 'e option outcome \<times> ('st, 'l, 'u, 'e) Client \<times> ('l, 'dc) event list" where
  "update w c =
     (case newUpdateRequest w c of
        (req, Some err) \<Rightarrow> (Returns (Some err), c, [])
      | (req, None) \<Rightarrow>
          (case updater_ClientGetConfigs w (updater c) (ctx c) req of
             ((response, Some err), u) \<Rightarrow> (Returns (Some err), c\<lparr>updater := u\<rparr>, [])
           | ((None, None), u) \<Rightarrow> (Panic, c\<lparr>updater := u\<rparr>, [])
           | ((Some response, None), u) \<Rightarrow>
               (if rsp_TargetFiles response = None then (Returns None, c\<lparr>updater := u\<rparr>, [])
                else
                  (case applyUpdate w (c\<lparr>updater := u\<rparr>) response of
                     ((changedProducts, Some err), s) \<Rightarrow>
                       (Returns (Some err), c\<lparr>updater := u, state := s\<rparr>, [])
                   | ((changedProducts, None), s) \<Rightarrow>
                       (if length changedProducts = 0
                        then (Returns None, c\<lparr>updater := u, state := s\<rparr>, [])
                        else (Returns None, c\<lparr>updater := u, state := s\<rparr>,
                              notifyListeners w (c\<lparr>updater := u, state := s\<rparr>)
                                changedProducts))))))"

subsection \<open>\<^verbatim>\<open>pollLoop\<close>\<close>

text \<open>
  One \<^verbatim>\<open>select\<close> of the loop arms \<^verbatim>\<open>time.After(time.Second * 5)\<close> and waits. With a
  cancelled context \<^verbatim>\<open>ctx.Done()\<close> is ready and the loop returns. Otherwise the caller's
  list says what happens first at each \<^verbatim>\<open>select\<close>: the context is cancelled meanwhile
  (\<open>CtxDone\<close>), or the timer fires (\<open>TimerFired\<close>) and the loop stores what \<^verbatim>\<open>update\<close>
  returns in \<^verbatim>\<open>lastUpdateError\<close>. When the list is used up the loop is still waiting.
  A panic of \<^verbatim>\<open>update\<close> ends the goroutine.
\<close>

datatype select_case = CtxDone | TimerFired

datatype loop_status = LoopReturned | LoopWaiting | LoopPanicked

fun pollLoop ::
  "('st, 'dc, 'u, 'e) world \<Rightarrow> select_case list \<Rightarrow> ('st, 'l, 'u, 'e) Client
     \<Rightarrow> loop_status \<times> ('st, 'l, 'u, 'e) Client \<times> ('l, 'dc) event list" where
  "pollLoop w [] c =
     (if ctx c = Cancelled then (LoopReturned, c, [After (Second * 5)])
      else (LoopWaiting, c, [After (Second * 5)]))"
| "pollLoop w (CtxDone # rest) c =
     (if ctx c = Cancelled then (LoopReturned, c, [After (Second * 5)])
      else (LoopReturned, c\<lparr>ctx := Cancelled\<rparr>, [After (Second * 5)]))"
| "pollLoop w (TimerFired # rest) c =
     (if ctx c = Cancelled then (LoopReturned, c, [After (Second * 5)])
      else
        (case update w c of
           (Panic, c', evs) \<Rightarrow> (LoopPanicked, c', After (Second * 5) # evs)
         | (Returns err, c', evs) \<Rightarrow>
             (case pollLoop w rest (c'\<lparr>lastUpdateError := err\<rparr>) of
                (status, c'', evs') \<Rightarrow> (status, c'', After (Second * 5) # evs @ evs'))))"

section \<open>Reading a call's events\<close>

text \<open>The listeners a call invoked, in order, each with the argument it was given.\<close>

fun invocations :: "('l, 'dc) event list \<Rightarrow> ('l \<times> 'dc) list" where
  "invocations [] = []"
| "invocations (Invoke l d # es) = (l, d) # invocations es"
| "invocations (e # es) = invocations es"

definition update_events ::
  "('st, 'dc, 'u, 'e) world \<Rightarrow> ('st, 'l, 'u, 'e) Client \<Rightarrow> ('l, 'dc) event list" where
  "update_events w c = snd (snd (update w c))"

text \<open>The durations of the timers a call armed, in order.\<close>

fun timers :: "('l, 'dc) event list \<Rightarrow> Duration list" where
  "timers [] = []"
| "timers (After d # es) = d # timers es"
| "timers (e # es) = timers es"

section \<open>Calls of the client's interface, one after the other\<close>

datatype 'l call = CallStart | CallClose | CallRegisterDebug 'l

fun perform ::
  "('st, 'dc, 'u, 'e) world \<Rightarrow> ('st, 'l, 'u, 'e) Client \<Rightarrow> 'l call
     \<Rightarrow> ('st, 'l, 'u, 'e) Client \<times> ('l, 'dc) event list" where
  "perform w c CallStart = Start c"
| "perform w c CallClose = (Close c, [])"
| "perform w c (CallRegisterDebug fn) = RegisterDebug w c fn"

fun perform_all ::
  "('st, 'dc, 'u, 'e) world \<Rightarrow> ('st, 'l, 'u, 'e) Client \<Rightarrow> 'l call list
     \<Rightarrow> ('st, 'l, 'u, 'e) Client \<times> ('l, 'dc) event list" where
  "perform_all w c [] = (c, [])"
| "perform_all w c (x # xs) =
     (case perform w c x of
        (c', evs) \<Rightarrow> (case perform_all w c' xs of (c'', evs') \<Rightarrow> (c'', evs @ evs')))"

section \<open>Goroutines and the mutex \<^verbatim>\<open>c.m\<close>\<close>

text \<open>The events that read or write \<^verbatim>\<open>c.debugListeners\<close>.\<close>

fun is_access :: "('l, 'dc) event \<Rightarrow> bool" where
  "is_access ListenersRead = True"
| "is_access ListenersWrite = True"
| "is_access e = False"

text \<open>
  What the client does with its listeners: the accesses to the list and the calls of a
  listener. These are the events that the client performs under \<^verbatim>\<open>c.m\<close>.
\<close>

fun needs_mutex :: "('l, 'dc) event \<Rightarrow> bool" where
  "needs_mutex (Invoke l d) = True"
| "needs_mutex e = is_access e"

text \<open>
  The lock discipline of one goroutine's events. \<open>held\<close> says whether the goroutine
  holds \<^verbatim>\<open>c.m\<close>. The result is \<open>None\<close> when the goroutine touches the listener list
  or calls a listener without holding the mutex, locks the mutex it already holds or
  unlocks it without holding it; otherwise it says whether the mutex is held at the end.
\<close>

fun discipline :: "bool \<Rightarrow> ('l, 'dc) event list \<Rightarrow> bool option" where
  "discipline held [] = Some held"
| "discipline held (MutexLock # es) = (if held then None else discipline True es)"
| "discipline held (MutexUnlock # es) = (if held then discipline False es else None)"
| "discipline held (e # es) = (if needs_mutex e \<and> \<not> held then None else discipline held es)"

text \<open>
  What a goroutine that uses the client does, call by call. Each call comes with the
  client as the call finds it, since other goroutines change the client in between.
  \<open>StepSelect\<close> is the \<^verbatim>\<open>select\<close> of the poll loop.
\<close>

datatype ('st, 'l, 'u, 'e) step =
    StepUpdate "('st, 'l, 'u, 'e) Client"
  | StepRegisterDebug "('st, 'l, 'u, 'e) Client" 'l
  | StepStart "('st, 'l, 'u, 'e) Client"
  | StepSelect

fun step_events ::
  "('st, 'dc, 'u, 'e) world \<Rightarrow> ('st, 'l, 'u, 'e) step \<Rightarrow> ('l, 'dc) event list" where
  "step_events w (StepUpdate c) = update_events w c"
| "step_events w (StepRegisterDebug c fn) = snd (RegisterDebug w c fn)"
| "step_events w (StepStart c) = snd (Start c)"
| "step_events w StepSelect = [After (Second * 5)]"

definition goroutine_events ::
  "('st, 'dc, 'u, 'e) world \<Rightarrow> ('st, 'l, 'u, 'e) step list \<Rightarrow> ('l, 'dc) event list" where
  "goroutine_events w steps = concat (map (step_events w) steps)"

text \<open>
  A run of several goroutines: the events in the order in which they happen, each with
  the number of its goroutine. \<open>mutex_ok\<close> is \<^verbatim>\<open>sync.Mutex\<close>: \<^verbatim>\<open>Lock\<close> goes through only
  when nobody holds the mutex, and \<^verbatim>\<open>Unlock\<close> of a mutex nobody holds is a fatal error.
  \<open>exclusive\<close> says that whenever the listener list is accessed or a listener is
  called, the goroutine that does it is the one holding the mutex.
\<close>

definition own_events :: "nat \<Rightarrow> (nat \<times> ('l, 'dc) event) list \<Rightarrow> ('l, 'dc) event list" where
  "own_events t r = map snd (filter (\<lambda>x. fst x = t) r)"

fun mutex_ok :: "nat option \<Rightarrow> (nat \<times> ('l, 'dc) event) list \<Rightarrow> bool" where
  "mutex_ok holder [] = True"
| "mutex_ok holder ((t, MutexLock) # r) = (holder = None \<and> mutex_ok (Some t) r)"
| "mutex_ok holder ((t, MutexUnlock) # r) = (holder \<noteq> None \<and> mutex_ok None r)"
| "mutex_ok holder ((t, e) # r) = mutex_ok holder r"

fun exclusive :: "nat option \<Rightarrow> (nat \<times> ('l, 'dc) event) list \<Rightarrow> bool" where
  "exclusive holder [] = True"
| "exclusive holder ((t, MutexLock) # r) = exclusive (Some t) r"
| "exclusive holder ((t, MutexUnlock) # r) = exclusive None r"
| "exclusive holder ((t, e) # r) = ((needs_mutex e \<longrightarrow> holder = Some t) \<and> exclusive holder r)"

text \<open>Who holds the mutex after a run, given who held it before.\<close>

fun next_holder :: "nat option \<Rightarrow> nat \<times> ('l, 'dc) event \<Rightarrow> nat option" where
  "next_holder holder (t, MutexLock) = Some t"
| "next_holder holder (t, MutexUnlock) = None"
| "next_holder holder (t, e) = holder"

definition holder_after :: "nat option \<Rightarrow> (nat \<times> ('l, 'dc) event) list \<Rightarrow> nat option" where
  "holder_after holder r = foldl next_holder holder r"

section \<open>A small world to run the client in\<close>

text \<open>
  A repository whose state is its targets version, and an updater that replays a script
  of answers. The repository rejects an update with empty targets, reports the update's
  client configs as the changed products, and its debug configs are its version.
\<close>

definition demo_world ::
  "(nat, nat, (ClientGetConfigsResponse option \<times> string option) list, string) world" where
  "demo_world = \<lparr>
     state_NewRepository = (\<lambda>root. (0, None)),
     state_NewUnverifiedRepository = (0, None),
     meta_RootsDirector_Last = [],
     data_ProductListToString = (\<lambda>ps. ps),
     state_CurrentState = (\<lambda>n.
       if n = 13 then (\<lparr>rs_Configs = [], rs_CachedFiles = [], rs_TargetsVersion = 0,
                         rs_RootsVersion = 0, rs_OpaqueBackendState = []\<rparr>, Some ''corrupt'')
       else (\<lparr>rs_Configs = [\<lparr>cs_ID = ''cfg'', cs_Version = 3, cs_Product = ''DEBUG''\<rparr>],
              rs_CachedFiles = [\<lparr>cf_Path = ''a/b'', cf_Length = 2,
                                 cf_Hashes = [(''sha256'', [0xde, 0x0a])]\<rparr>],
              rs_TargetsVersion = of_nat n, rs_RootsVersion = 1,
              rs_OpaqueBackendState = [7]\<rparr>, None)),
     state_Update = (\<lambda>n u.
       if upd_TUFTargets u = [] then (([], Some ''bad targets''), n)
       else ((upd_ClientConfigs u, None), Suc n)),
     state_DebugConfigs = (\<lambda>n. n),
     state_ProductDebug = ''DEBUG'',
     updater_ClientGetConfigs = (\<lambda>script cx req.
       case script of [] \<Rightarrow> ((None, Some ''unavailable''), []) | a # rest \<Rightarrow> (a, rest)),
     error_Error = (\<lambda>e. e) \<rparr>"

definition demo_response :: "string list \<Rightarrow> ClientGetConfigsResponse" where
  "demo_response changed = \<lparr>
     rsp_Roots = [], rsp_Targets = [1],
     rsp_TargetFiles = Some [\<lparr>file_Path = ''a/b'', file_Raw = [0, 1]\<rparr>],
     rsp_ClientConfigs = changed \<rparr>"

definition demo_client ::
  "nat \<Rightarrow> (ClientGetConfigsResponse option \<times> string option) list
     \<Rightarrow> (nat, nat, (ClientGetConfigsResponse option \<times> string option) list, string) Client" where
  "demo_client n script = \<lparr>
     ID = ''id'', startupSync = False, ctx = Live, agentName = ''operator'',
     agentVersion = ''1.2.3'', products = [''DEBUG''], clusterName = [], clusterID = [],
     cwsWorkloads = [], pollInterval = 7 * Second, lastUpdateError = None,
     updater = script, state = n, debugListeners = [10, 20] \<rparr>"

text \<open>
  Two goroutines: number 0 is the poll loop, which waits and then runs an update that
  changes the Debug product; number 1 registers listener 30 before the poll loop gets
  the mutex.
\<close>

definition demo_prog ::
  "nat \<Rightarrow> (nat, nat, (ClientGetConfigsResponse option \<times> string option) list, string) step list" where
  "demo_prog t =
     (if t = 0 then [StepSelect, StepUpdate (demo_client 4 [(Some (demo_response [''DEBUG'']), None)])]
      else if t = 1 then [StepRegisterDebug (demo_client 4 []) 30]
      else [])"

definition demo_run :: "(nat \<times> (nat, nat) event) list" where
  "demo_run =
     [(0, After 5000000000),
      (1, MutexLock), (1, ListenersRead), (1, ListenersWrite), (1, Invoke 30 4), (1, MutexUnlock),
      (0, MutexLock), (0, ListenersRead), (0, ListenersRead), (0, Invoke 10 5), (0, Invoke 20 5),
      (0, MutexUnlock)]"

section \<open>Agent profiles: \<^verbatim>\<open>ProfilesToApply\<close>\<close>

subsection \<open>Kubernetes types and the \<^verbatim>\<open>labels\<close> package\<close>

text \<open>
  The operators are string constants of the Kubernetes API; only their identity
  matters here. \<open>NodeSelectorOpOther s\<close> is any other string \<open>s\<close>, \<open>NoOperator\<close> the
  empty \<^verbatim>\<open>selection.Operator\<close>.
\<close>

datatype NodeSelectorOperator =
    NodeSelectorOpIn
  | NodeSelectorOpNotIn
  | NodeSelectorOpExists
  | NodeSelectorOpDoesNotExist
  | NodeSelectorOpGt
  | NodeSelectorOpLt
  | NodeSelectorOpOther string

datatype selection_Operator =
    In | NotIn | Exists | DoesNotExist | GreaterThan | LessThan | NoOperator

record NodeSelectorRequirement =
  nsr_Key :: string
  nsr_Operator :: NodeSelectorOperator
  nsr_Values :: "string list"

record Node =
  node_Name :: string
  node_Labels :: "string \<rightharpoonup> string"

text \<open>
  Of a profile, its name and namespace, its creation timestamp (an instant, counted
  from Go's zero time), its affinity (\<open>None\<close> is the \<^verbatim>\<open>nil\<close> \<^verbatim>\<open>ProfileAffinity\<close>, otherwise
  the \<^verbatim>\<open>ProfileNodeAffinity\<close> list) and its config (\<open>None\<close> is \<^verbatim>\<open>nil\<close>).
\<close>

record 'cfg DatadogAgentProfile =
  dap_Name :: string
  dap_Namespace :: string
  dap_CreationTimestamp :: int
  dap_ProfileAffinity :: "NodeSelectorRequirement list option"
  dap_Config :: "'cfg option"

text \<open>
  \<^verbatim>\<open>labels.NewRequirement\<close> returns a requirement or an error, and \<^verbatim>\<open>Matches\<close> tests a
  requirement against a node's labels. Both belong to Kubernetes and are parameters;
  \<open>'sel\<close> is the type of requirements.
\<close>

record ('sel, 'e) labels_pkg =
  labels_NewRequirement :: "string \<Rightarrow> selection_Operator \<Rightarrow> string list \<Rightarrow> 'e + 'sel"
  Requirement_Matches :: "'sel \<Rightarrow> (string \<rightharpoonup> string) \<Rightarrow> bool"

subsection \<open>Matching a profile against a node\<close>

fun nodeSelectorOperatorToSelectionOperator :: "NodeSelectorOperator \<Rightarrow> selection_Operator" where
  "nodeSelectorOperatorToSelectionOperator NodeSelectorOpIn = In"
| "nodeSelectorOperatorToSelectionOperator NodeSelectorOpNotIn = NotIn"
| "nodeSelectorOperatorToSelectionOperator NodeSelectorOpExists = Exists"
| "nodeSelectorOperatorToSelectionOperator NodeSelectorOpDoesNotExist = DoesNotExist"
| "nodeSelectorOperatorToSelectionOperator NodeSelectorOpGt = GreaterThan"
| "nodeSelectorOperatorToSelectionOperator NodeSelectorOpLt = LessThan"
| "nodeSelectorOperatorToSelectionOperator (NodeSelectorOpOther s) = NoOperator"

text \<open>The loop of \<^verbatim>\<open>profileMatchesNode\<close> over the requirements, with its two early returns.\<close>

fun requirementsMatch ::
  "('sel, 'e) labels_pkg \<Rightarrow> NodeSelectorRequirement list \<Rightarrow> (string \<rightharpoonup> string)
     \<Rightarrow> bool \<times> 'e option" where
  "requirementsMatch k [] ls = (True, None)"
| "requirementsMatch k (requirement # rest) ls =
     (case labels_NewRequirement k (nsr_Key requirement)
             (nodeSelectorOperatorToSelectionOperator (nsr_Operator requirement))
             (nsr_Values requirement) of
        Inl err \<Rightarrow> (False, Some err)
      | Inr selector \<Rightarrow>
          if \<not> Requirement_Matches k selector ls then (False, None)
          else requirementsMatch k rest ls)"

definition profileMatchesNode ::
  "('sel, 'e) labels_pkg \<Rightarrow> 'cfg DatadogAgentProfile \<Rightarrow> Node \<Rightarrow> bool \<times> 'e option" where
  "profileMatchesNode k profile node =
     (case dap_ProfileAffinity profile of
        None \<Rightarrow> (True, None)
      | Some requirements \<Rightarrow> requirementsMatch k requirements (node_Labels node))"

subsection \<open>\<^verbatim>\<open>sortProfiles\<close>\<close>

text \<open>
  The \<^verbatim>\<open>less\<close> function given to \<^verbatim>\<open>sort.Slice\<close>: by creation timestamp, then by name
  (Go compares strings byte by byte).
\<close>

definition profile_less :: "'cfg DatadogAgentProfile \<Rightarrow> 'cfg DatadogAgentProfile \<Rightarrow> bool" where
  "profile_less a b =
     (if dap_CreationTimestamp a \<noteq> dap_CreationTimestamp b
      then dap_CreationTimestamp a < dap_CreationTimestamp b
      else dap_Name a < dap_Name b)"

text \<open>
  What \<^verbatim>\<open>sort.Slice\<close> promises for such a \<^verbatim>\<open>less\<close>: the result holds the same profiles
  and no profile is less than one before it. \<^verbatim>\<open>sort.Slice\<close> is not stable, so profiles
  with equal timestamp and equal name may come out in any order.
\<close>

definition sorted_profiles ::
  "'cfg DatadogAgentProfile list \<Rightarrow> 'cfg DatadogAgentProfile list \<Rightarrow> bool" where
  "sorted_profiles profiles sortedProfiles \<longleftrightarrow>
     mset sortedProfiles = mset profiles
     \<and> sorted_wrt (\<lambda>a b. \<not> profile_less b a) sortedProfiles"

text \<open>One sort that keeps that promise: each profile is put before the first greater one.\<close>

fun place_profile ::
  "'cfg DatadogAgentProfile \<Rightarrow> 'cfg DatadogAgentProfile list \<Rightarrow> 'cfg DatadogAgentProfile list" where
  "place_profile p [] = [p]"
| "place_profile p (q # qs) = (if profile_less p q then p # q # qs else q # place_profile p qs)"

definition sortProfiles :: "'cfg DatadogAgentProfile list \<Rightarrow> 'cfg DatadogAgentProfile list" where
  "sortProfiles profiles = foldr place_profile profiles []"

subsection \<open>\<^verbatim>\<open>defaultProfile\<close>\<close>

definition defaultProfileName :: string where
  "defaultProfileName = ''default''"

fun oppositeOperator :: "NodeSelectorOperator \<Rightarrow> NodeSelectorOperator" where
  "oppositeOperator NodeSelectorOpIn = NodeSelectorOpNotIn"
| "oppositeOperator NodeSelectorOpNotIn = NodeSelectorOpIn"
| "oppositeOperator NodeSelectorOpExists = NodeSelectorOpDoesNotExist"
| "oppositeOperator NodeSelectorOpDoesNotExist = NodeSelectorOpExists"
| "oppositeOperator NodeSelectorOpGt = NodeSelectorOpLt"
| "oppositeOperator NodeSelectorOpLt = NodeSelectorOpGt"
| "oppositeOperator (NodeSelectorOpOther s) = NodeSelectorOpOther []"

definition defaultProfile :: "'cfg DatadogAgentProfile list \<Rightarrow> 'cfg DatadogAgentProfile" where
  "defaultProfile profiles =
     (let nodeSelectorRequirements =
            foldl (\<lambda>acc profile.
                     case dap_ProfileAffinity profile of
                       None \<Rightarrow> acc
                     | Some requirements \<Rightarrow>
                         foldl (\<lambda>acc' r.
                                  acc' @ [\<lparr>nsr_Key = nsr_Key r,
                                           nsr_Operator = oppositeOperator (nsr_Operator r),
                                           nsr_Values = nsr_Values r\<rparr>])
                           acc requirements)
              [] profiles
      in \<lparr>dap_Name = defaultProfileName, dap_Namespace = [], dap_CreationTimestamp = 0,
          dap_ProfileAffinity =
            (if length nodeSelectorRequirements > 0 then Some nodeSelectorRequirements else None),
          dap_Config = None\<rparr>)"

subsection \<open>\<^verbatim>\<open>ProfilesToApply\<close>\<close>

text \<open>Reading a Go \<^verbatim>\<open>map[string]bool\<close>: a missing key reads as \<^verbatim>\<open>false\<close>.\<close>

definition map_index :: "(string \<rightharpoonup> bool) \<Rightarrow> string \<Rightarrow> bool" where
  "map_index m key = (case m key of None \<Rightarrow> False | Some b \<Rightarrow> b)"

text \<open>
  The inner loop over the nodes for one profile. It returns the error of
  \<^verbatim>\<open>profileMatchesNode\<close>, or \<^verbatim>\<open>conflicts\<close> and \<^verbatim>\<open>nodesThatMatchProfile\<close> as they are when the
  loop ends; a conflict ends it at once (\<^verbatim>\<open>break\<close>).
\<close>

fun ProfilesToApply_nodes ::
  "('sel, 'e) labels_pkg \<Rightarrow> (string \<rightharpoonup> bool) \<Rightarrow> 'cfg DatadogAgentProfile \<Rightarrow> Node list
     \<Rightarrow> (string \<rightharpoonup> bool) \<Rightarrow> 'e + (bool \<times> (string \<rightharpoonup> bool))" where
  "ProfilesToApply_nodes k nodesWithProfilesApplied profile [] nodesThatMatchProfile =
     Inr (False, nodesThatMatchProfile)"
| "ProfilesToApply_nodes k nodesWithProfilesApplied profile (node # rest) nodesThatMatchProfile =
     (case profileMatchesNode k profile node of
        (matchesNode, Some err) \<Rightarrow> Inl err
      | (matchesNode, None) \<Rightarrow>
          if matchesNode then
            (if map_index nodesWithProfilesApplied (node_Name node)
             then Inr (True, nodesThatMatchProfile)
             else ProfilesToApply_nodes k nodesWithProfilesApplied profile rest
                    (nodesThatMatchProfile(node_Name node \<mapsto> True)))
          else ProfilesToApply_nodes k nodesWithProfilesApplied profile rest nodesThatMatchProfile)"

text \<open>
  The outer loop over the sorted profiles. A profile without conflict marks every node
  name it matched (\<^verbatim>\<open>for node := range nodesThatMatchProfile\<close> sets each key to \<^verbatim>\<open>true\<close>,
  in whatever order) and is appended to \<^verbatim>\<open>res\<close>.
\<close>

fun ProfilesToApply_profiles ::
  "('sel, 'e) labels_pkg \<Rightarrow> Node list \<Rightarrow> 'cfg DatadogAgentProfile list \<Rightarrow> (string \<rightharpoonup> bool)
     \<Rightarrow> 'cfg DatadogAgentProfile list \<Rightarrow> 'e + 'cfg DatadogAgentProfile list" where
  "ProfilesToApply_profiles k nodes [] nodesWithProfilesApplied res = Inr res"
| "ProfilesToApply_profiles k nodes (profile # rest) nodesWithProfilesApplied res =
     (case ProfilesToApply_nodes k nodesWithProfilesApplied profile nodes Map.empty of
        Inl err \<Rightarrow> Inl err
      | Inr (conflicts, nodesThatMatchProfile) \<Rightarrow>
          if conflicts then ProfilesToApply_profiles k nodes rest nodesWithProfilesApplied res
          else ProfilesToApply_profiles k nodes rest
                 (\<lambda>node. case nodesThatMatchProfile node of
                            Some b \<Rightarrow> Some True
                          | None \<Rightarrow> nodesWithProfilesApplied node)
                 (res @ [profile]))"

text \<open>\<^verbatim>\<open>ProfilesToApply\<close> from the sorted profiles on.\<close>

definition ProfilesToApply_sorted ::
  "('sel, 'e) labels_pkg \<Rightarrow> 'cfg DatadogAgentProfile list \<Rightarrow> Node list
     \<Rightarrow> 'cfg DatadogAgentProfile list option \<times> 'e option" where
  "ProfilesToApply_sorted k sortedProfiles nodes =
     (let nodesWithProfilesApplied =
            foldl (\<lambda>m node. m(node_Name node \<mapsto> False)) Map.empty nodes
      in case ProfilesToApply_profiles k nodes sortedProfiles nodesWithProfilesApplied [] of
           Inl err \<Rightarrow> (None, Some err)
         | Inr res \<Rightarrow> (Some (res @ [defaultProfile res]), None))"

definition ProfilesToApply ::
  "('sel, 'e) labels_pkg \<Rightarrow> 'cfg DatadogAgentProfile list \<Rightarrow> Node list
     \<Rightarrow> 'cfg DatadogAgentProfile list option \<times> 'e option" where
  "ProfilesToApply k profiles nodes = ProfilesToApply_sorted k (sortProfiles profiles) nodes"

subsection \<open>Conflicts\<close>

text \<open>
  A profile matches a node when \<^verbatim>\<open>profileMatchesNode\<close> says \<^verbatim>\<open>true\<close> without error. Two
  profiles conflict when they match nodes of the same name (for nodes with distinct
  names: when they match the same node); that is the conflict \<^verbatim>\<open>ProfilesToApply\<close> tests,
  since it marks the nodes by name.
\<close>

definition matches :: "('sel, 'e) labels_pkg \<Rightarrow> 'cfg DatadogAgentProfile \<Rightarrow> Node \<Rightarrow> bool" where
  "matches k profile node \<longleftrightarrow> profileMatchesNode k profile node = (True, None)"

definition conflict ::
  "('sel, 'e) labels_pkg \<Rightarrow> Node list \<Rightarrow> 'cfg DatadogAgentProfile \<Rightarrow> 'cfg DatadogAgentProfile
     \<Rightarrow> bool" where
  "conflict k nodes q p \<longleftrightarrow>
     list_ex (\<lambda>n. list_ex (\<lambda>n'. node_Name n' = node_Name n \<and> matches k q n') nodes
                 \<and> matches k p n) nodes"

text \<open>The profiles of a list whose flag is set, in order.\<close>

definition kept :: "'a list \<Rightarrow> bool list \<Rightarrow> 'a list" where
  "kept xs flags = map fst (filter snd (zip xs flags))"

subsection \<open>A small cluster\<close>

text \<open>
  A \<^verbatim>\<open>labels\<close> package that knows the four set operators and rejects an empty key, three
  profiles and two nodes.
\<close>

definition demo_labels :: "(string \<times> selection_Operator \<times> string list, string) labels_pkg" where
  "demo_labels = \<lparr>
     labels_NewRequirement = (\<lambda>key op vals.
       if key = [] then Inl ''empty key'' else Inr (key, op, vals)),
     Requirement_Matches = (\<lambda>(key, op, vals) ls.
       case op of
         In \<Rightarrow> (case ls key of None \<Rightarrow> False | Some v \<Rightarrow> v \<in> set vals)
       | NotIn \<Rightarrow> (case ls key of None \<Rightarrow> True | Some v \<Rightarrow> v \<notin> set vals)
       | Exists \<Rightarrow> ls key \<noteq> None
       | DoesNotExist \<Rightarrow> ls key = None
       | _ \<Rightarrow> False) \<rparr>"

definition demo_linux :: "unit DatadogAgentProfile" where
  "demo_linux = \<lparr>dap_Name = ''linux'', dap_Namespace = ''ops'', dap_CreationTimestamp = 10,
     dap_ProfileAffinity = Some [\<lparr>nsr_Key = ''os'', nsr_Operator = NodeSelectorOpIn,
                                   nsr_Values = [''linux'']\<rparr>],
     dap_Config = None\<rparr>"

definition demo_all :: "unit DatadogAgentProfile" where
  "demo_all = \<lparr>dap_Name = ''all'', dap_Namespace = ''ops'', dap_CreationTimestamp = 20,
     dap_ProfileAffinity = None, dap_Config = None\<rparr>"

definition demo_big :: "unit DatadogAgentProfile" where
  "demo_big = \<lparr>dap_Name = ''big'', dap_Namespace = ''ops'', dap_CreationTimestamp = 20,
     dap_ProfileAffinity = Some [\<lparr>nsr_Key = ''size'', nsr_Operator = NodeSelectorOpIn,
                                   nsr_Values = [''big'']\<rparr>],
     dap_Config = None\<rparr>"

definition demo_nodes :: "Node list" where
  "demo_nodes =
     [\<lparr>node_Name = ''n1'', node_Labels = [''os'' \<mapsto> ''linux'']\<rparr>,
      \<lparr>node_Name = ''n2'', node_Labels = [''os'' \<mapsto> ''windows'', ''size'' \<mapsto> ''big'']\<rparr>]"

section \<open>Properties of \<^verbatim>\<open>generateID\<close>\<close>

lemma length_idAlphabet: "length idAlphabet = 64"
  by (simp add: idAlphabet_def)

lemma length_rand_Read: "length (rand_Read buf rnd) = length buf"
  by (simp add: rand_Read_def)

lemma mask63_in_alphabet: "unat ((b :: byte) AND 63) < length idAlphabet"
proof -
  have "(b AND 63) \<le> 63"
    by (rule word_and_le1)
  then have "unat (b AND 63) \<le> unat (63 :: byte)"
    by (simp add: word_le_nat_alt)
  then show ?thesis
    by (simp add: length_idAlphabet)
qed

lemma generateID_loop_upt:
  assumes "length bytes = n" and "length ident = n" and "k \<le> n"
  shows "generateID_loop bytes [k..<n] ident =
           Returns (take k ident @ map (\<lambda>b. idAlphabet ! unat (b AND 63)) (drop k bytes))"
  using assms
proof (induction "n - k" arbitrary: k ident)
  case 0
  then show ?case by simp
next
  case (Suc d)
  then have lt: "k < n" by simp
  have step: "generateID_loop bytes [k..<n] ident =
      generateID_loop bytes [Suc k..<n] (ident[k := idAlphabet ! unat ((bytes ! k) AND 63)])"
    using lt Suc.prems mask63_in_alphabet [of "bytes ! k"]
    by (simp add: upt_conv_Cons Let_def)
  have ih: "generateID_loop bytes [Suc k..<n] (ident[k := idAlphabet ! unat ((bytes ! k) AND 63)]) =
      Returns (take (Suc k) (ident[k := idAlphabet ! unat ((bytes ! k) AND 63)])
        @ map (\<lambda>b. idAlphabet ! unat (b AND 63)) (drop (Suc k) bytes))"
    using Suc.hyps(1) [of "Suc k" "ident[k := idAlphabet ! unat ((bytes ! k) AND 63)]"]
      Suc.hyps(2) Suc.prems lt
    by simp
  have "take (Suc k) (ident[k := idAlphabet ! unat ((bytes ! k) AND 63)]) =
      take k ident @ [idAlphabet ! unat ((bytes ! k) AND 63)]"
    using lt Suc.prems by (simp add: take_Suc_conv_app_nth)
  moreover have "drop k bytes = bytes ! k # drop (Suc k) bytes"
    using lt Suc.prems by (simp add: Cons_nth_drop_Suc)
  ultimately show ?case
    using step ih by simp
qed

lemma generateID_value:
  "generateID rnd None =
     Returns (map (\<lambda>b. idAlphabet ! unat (b AND 63)) (rand_Read (replicate idSize 0) rnd))"
  using generateID_loop_upt [of "rand_Read (replicate idSize 0) rnd" idSize
      "replicate idSize (CHR 0x00)" 0]
  by (simp add: generateID_def length_rand_Read)

text \<open>
  Claim C8. Whenever the random source reports no error, \<^verbatim>\<open>generateID\<close> returns (it does
  not panic on an index), the identifier has exactly 21 characters, and every character
  is one of the 64 characters of \<open>idAlphabet\<close>: the mask \<^verbatim>\<open>&63\<close> keeps each index below the
  alphabet's length.
\<close>

theorem generateID_shape:
  "\<exists>s. generateID rnd None = Returns s \<and> length s = 21 \<and> set s \<subseteq> set idAlphabet
       \<and> length idAlphabet = 64"
proof -
  let ?bytes = "rand_Read (replicate idSize 0) rnd"
  let ?s = "map (\<lambda>b. idAlphabet ! unat (b AND 63)) ?bytes"
  have "length ?s = 21"
    by (simp add: length_rand_Read idSize_def)
  moreover have "set ?s \<subseteq> set idAlphabet"
    using mask63_in_alphabet by (auto simp: nth_mem)
  ultimately show ?thesis
    using generateID_value [of rnd] length_idAlphabet by blast
qed

theorem generateID_shape_witness:
  "generateID [255, 64, 1] (None :: unit option) = Returns ''Z_-__________________''
   \<and> (\<exists>s. generateID [255, 64, 1] (None :: unit option) = Returns s \<and> length s = 21)"
proof -
  have "generateID [255, 64, 1] (None :: unit option) = Returns ''Z_-__________________''"
    by code_simp
  moreover have "\<exists>s. generateID [255, 64, 1] (None :: unit option) = Returns s \<and> length s = 21"
    using generateID_shape [of "[255, 64, 1]"] by blast
  ultimately show ?thesis by blast
qed

section \<open>Properties of \<^verbatim>\<open>update\<close>\<close>

lemma containsProduct_set: "containsProduct ps p \<longleftrightarrow> p \<in> set ps"
  by (induction ps) auto

lemma invocations_append: "invocations (xs @ ys) = invocations xs @ invocations ys"
  by (induction xs rule: invocations.induct) simp_all

lemma invocations_Invoke_map: "invocations (map (\<lambda>l. Invoke l d) ls) = map (\<lambda>l. (l, d)) ls"
  by (induction ls) simp_all

lemma invocations_notifyListeners:
  "invocations (notifyListeners w c changed) =
     (if state_ProductDebug w \<in> set changed
      then map (\<lambda>l. (l, state_DebugConfigs w (state c))) (debugListeners c) else [])"
  by (simp add: notifyListeners_def containsProduct_set invocations_append invocations_Invoke_map)

text \<open>The path of \<^verbatim>\<open>update\<close> that reaches the listeners, step by step.\<close>

lemma update_applied:
  assumes "newUpdateRequest w c = (req, None)"
    and "updater_ClientGetConfigs w (updater c) (ctx c) req = ((Some response, None), u)"
    and "rsp_TargetFiles response = Some files"
    and "applyUpdate w (c\<lparr>updater := u\<rparr>) response = ((changed, None), s)"
  shows "update w c =
           (Returns None, c\<lparr>updater := u, state := s\<rparr>,
            if changed = [] then [] else notifyListeners w (c\<lparr>updater := u, state := s\<rparr>) changed)"
  using assms by (simp add: update_def)

lemma update_invocations_cases:
  "invocations (update_events w c) \<noteq> [] \<Longrightarrow>
     \<exists>req response u files changed s.
        newUpdateRequest w c = (req, None)
      \<and> updater_ClientGetConfigs w (updater c) (ctx c) req = ((Some response, None), u)
      \<and> rsp_TargetFiles response = Some files
      \<and> applyUpdate w (c\<lparr>updater := u\<rparr>) response = ((changed, None), s)
      \<and> state_ProductDebug w \<in> set changed"
  by (auto simp: update_events_def update_def invocations_notifyListeners
      split: prod.splits option.splits if_splits)

text \<open>
  Claim C1. \<^verbatim>\<open>update\<close> invokes listeners if and only if the update was applied and the
  repository reported the Debug product among the changed products.
  \<^item> Only if: whenever a call of \<^verbatim>\<open>update\<close> invokes any listener, the request was built,
    the updater answered with a response and no error, the response's \<^verbatim>\<open>TargetFiles\<close> was
    not \<^verbatim>\<open>nil\<close>, \<^verbatim>\<open>state.Update\<close> returned no error, and \<^verbatim>\<open>ProductDebug\<close> is among the
    changed products.
  \<^item> In particular no listener is invoked when \<^verbatim>\<open>TargetFiles\<close> is \<^verbatim>\<open>nil\<close>, when the list of
    changed products is empty, or when it does not contain \<^verbatim>\<open>ProductDebug\<close>.
  \<^item> If: on that path with \<^verbatim>\<open>ProductDebug\<close> among the changed products, \<^verbatim>\<open>update\<close>
    returns \<^verbatim>\<open>nil\<close> and the listeners invoked are exactly the registered ones, in
    registration order, each once, each given the \<^verbatim>\<open>DebugConfigs\<close> of the repository as
    the update left it.
\<close>

theorem update_invokes_listeners_iff:
  "(invocations (update_events w c) \<noteq> [] \<longrightarrow>
      (\<exists>req response u files changed s.
          newUpdateRequest w c = (req, None)
        \<and> updater_ClientGetConfigs w (updater c) (ctx c) req = ((Some response, None), u)
        \<and> rsp_TargetFiles response = Some files
        \<and> applyUpdate w (c\<lparr>updater := u\<rparr>) response = ((changed, None), s)
        \<and> state_ProductDebug w \<in> set changed))
   \<and> (newUpdateRequest w c = (req, None)
        \<and> updater_ClientGetConfigs w (updater c) (ctx c) req = ((Some response, None), u)
      \<longrightarrow>
        (rsp_TargetFiles response = None \<longrightarrow> invocations (update_events w c) = [])
      \<and> (\<forall>files changed s.
            rsp_TargetFiles response = Some files
          \<and> applyUpdate w (c\<lparr>updater := u\<rparr>) response = ((changed, None), s)
          \<longrightarrow>
            (changed = [] \<longrightarrow> invocations (update_events w c) = [])
          \<and> (state_ProductDebug w \<notin> set changed \<longrightarrow> invocations (update_events w c) = [])
          \<and> (state_ProductDebug w \<in> set changed \<longrightarrow>
                fst (update w c) = Returns None
              \<and> state (fst (snd (update w c))) = s
              \<and> invocations (update_events w c) =
                  map (\<lambda>listener. (listener, state_DebugConfigs w s)) (debugListeners c))))"
proof (intro conjI impI allI)
  assume "invocations (update_events w c) \<noteq> []"
  then show "\<exists>req response u files changed s.
          newUpdateRequest w c = (req, None)
        \<and> updater_ClientGetConfigs w (updater c) (ctx c) req = ((Some response, None), u)
        \<and> rsp_TargetFiles response = Some files
        \<and> applyUpdate w (c\<lparr>updater := u\<rparr>) response = ((changed, None), s)
        \<and> state_ProductDebug w \<in> set changed"
    by (rule update_invocations_cases)
next
  assume "newUpdateRequest w c = (req, None)
        \<and> updater_ClientGetConfigs w (updater c) (ctx c) req = ((Some response, None), u)"
    and "rsp_TargetFiles response = None"
  then show "invocations (update_events w c) = []"
    by (simp add: update_events_def update_def)
next
  fix files changed s
  assume pre: "newUpdateRequest w c = (req, None)
        \<and> updater_ClientGetConfigs w (updater c) (ctx c) req = ((Some response, None), u)"
    and app: "rsp_TargetFiles response = Some files
          \<and> applyUpdate w (c\<lparr>updater := u\<rparr>) response = ((changed, None), s)"
  have run: "update w c =
           (Returns None, c\<lparr>updater := u, state := s\<rparr>,
            if changed = [] then [] else notifyListeners w (c\<lparr>updater := u, state := s\<rparr>) changed)"
    using pre app update_applied [of w c req response u files changed s] by simp
  {
    assume "changed = []"
    then show "invocations (update_events w c) = []"
      using run by (simp add: update_events_def)
  next
    assume "state_ProductDebug w \<notin> set changed"
    then show "invocations (update_events w c) = []"
      using run by (simp add: update_events_def invocations_notifyListeners)
  next
    assume dbg: "state_ProductDebug w \<in> set changed"
    show "fst (update w c) = Returns None"
      using run by simp
    show "state (fst (snd (update w c))) = s"
      using run by simp
    from dbg have "changed \<noteq> []" by auto
    then show "invocations (update_events w c) =
                  map (\<lambda>listener. (listener, state_DebugConfigs w s)) (debugListeners c)"
      using run dbg by (simp add: update_events_def invocations_notifyListeners)
  }
qed

lemma demo_newUpdateRequest_ok:
  "n \<noteq> 13 \<Longrightarrow> snd (newUpdateRequest demo_world (demo_client n script)) = None"
  by (simp add: newUpdateRequest_def demo_world_def demo_client_def)

lemma demo_applyUpdate:
  "applyUpdate demo_world (demo_client n script\<lparr>updater := u\<rparr>) (demo_response changed) =
     ((changed, None), Suc n)"
  by (simp add: applyUpdate_def demo_world_def demo_client_def demo_response_def)

theorem update_invokes_listeners_iff_witness:
  "invocations (update_events demo_world
      (demo_client 4 [(Some (demo_response [''APM'', ''DEBUG'']), None)])) = [(10, 5), (20, 5)]
   \<and> invocations (update_events demo_world
      (demo_client 4 [(Some (demo_response [''APM'']), None)])) = []
   \<and> invocations (update_events demo_world
      (demo_client 4 [(Some ((demo_response [''DEBUG''])\<lparr>rsp_TargetFiles := None\<rparr>), None)])) = []"
proof -
  let ?apm = "demo_response [''APM'']"
  let ?ca = "demo_client 4 [(Some ?apm, None)]"
  have a1: "newUpdateRequest demo_world ?ca = (fst (newUpdateRequest demo_world ?ca), None)"
    using demo_newUpdateRequest_ok [of 4] by (simp add: prod_eq_iff)
  have a2: "updater_ClientGetConfigs demo_world (updater ?ca) (ctx ?ca)
      (fst (newUpdateRequest demo_world ?ca)) = ((Some ?apm, None), [])"
    by (simp add: demo_world_def demo_client_def)
  have a3: "rsp_TargetFiles ?apm = Some [\<lparr>file_Path = ''a/b'', file_Raw = [0, 1]\<rparr>]"
    by (simp add: demo_response_def)
  have a4: "applyUpdate demo_world (?ca\<lparr>updater := []\<rparr>) ?apm = (([''APM''], None), 5)"
    by (simp add: demo_applyUpdate)
  have a5: "state_ProductDebug demo_world \<notin> set [''APM'']"
    by (simp add: demo_world_def)
  have other: "invocations (update_events demo_world ?ca) = []"
    using update_invokes_listeners_iff [where w = demo_world and c = ?ca
        and req = "fst (newUpdateRequest demo_world ?ca)" and response = ?apm and u = "[]"]
      a1 a2 a3 a4 a5
    by blast
  let ?nil = "(demo_response [''DEBUG''])\<lparr>rsp_TargetFiles := None\<rparr>"
  let ?cn = "demo_client 4 [(Some ?nil, None)]"
  have n1: "newUpdateRequest demo_world ?cn = (fst (newUpdateRequest demo_world ?cn), None)"
    using demo_newUpdateRequest_ok [of 4] by (simp add: prod_eq_iff)
  have n2: "updater_ClientGetConfigs demo_world (updater ?cn) (ctx ?cn)
      (fst (newUpdateRequest demo_world ?cn)) = ((Some ?nil, None), [])"
    by (simp add: demo_world_def demo_client_def)
  have n3: "rsp_TargetFiles ?nil = None"
    by simp
  have nil_files: "invocations (update_events demo_world ?cn) = []"
    using update_invokes_listeners_iff [where w = demo_world and c = ?cn
        and req = "fst (newUpdateRequest demo_world ?cn)" and response = ?nil and u = "[]"]
      n1 n2 n3
    by blast
  let ?c = "demo_client 4 [(Some (demo_response [''APM'', ''DEBUG'']), None)]"
  let ?req = "fst (newUpdateRequest demo_world ?c)"
  let ?rsp = "demo_response [''APM'', ''DEBUG'']"
  have 1: "newUpdateRequest demo_world ?c = (?req, None)"
    using demo_newUpdateRequest_ok [of 4] by (simp add: prod_eq_iff)
  have 2: "updater_ClientGetConfigs demo_world (updater ?c) (ctx ?c) ?req = ((Some ?rsp, None), [])"
    by (simp add: demo_world_def demo_client_def)
  have 3: "rsp_TargetFiles ?rsp = Some [\<lparr>file_Path = ''a/b'', file_Raw = [0, 1]\<rparr>]"
    by (simp add: demo_response_def)
  have 4: "applyUpdate demo_world (?c\<lparr>updater := []\<rparr>) ?rsp = (([''APM'', ''DEBUG''], None), 5)"
    by (simp add: demo_applyUpdate)
  have 5: "state_ProductDebug demo_world \<in> set [''APM'', ''DEBUG'']"
    by (simp add: demo_world_def)
  have "invocations (update_events demo_world ?c) =
      map (\<lambda>listener. (listener, state_DebugConfigs demo_world 5)) (debugListeners ?c)"
    using update_invokes_listeners_iff [where w = demo_world and c = ?c and req = ?req
        and response = ?rsp and u = "[]"] 1 2 3 4 5
    by blast
  then have "invocations (update_events demo_world ?c) = [(10, 5), (20, 5)]"
    by (simp add: demo_world_def demo_client_def)
  with other nil_files show ?thesis
    by blast
qed

text \<open>
  Claim C2. Each of the three steps of \<^verbatim>\<open>update\<close> that can fail passes its error through:
  when \<^verbatim>\<open>newUpdateRequest\<close> fails, when \<^verbatim>\<open>ClientGetConfigs\<close> fails, or when applying the
  update fails, \<^verbatim>\<open>update\<close> returns that very error, the call has no event at all (no
  listener is invoked, the mutex is not taken), and nothing is tried again: the updater
  and the repository are left as the one failed call left them.
\<close>

theorem update_error_passthrough:
  "(newUpdateRequest w c = (req, Some err) \<longrightarrow> update w c = (Returns (Some err), c, []))
   \<and> (newUpdateRequest w c = (req, None)
        \<and> updater_ClientGetConfigs w (updater c) (ctx c) req = ((rsp, Some err), u)
      \<longrightarrow> update w c = (Returns (Some err), c\<lparr>updater := u\<rparr>, []))
   \<and> (newUpdateRequest w c = (req, None)
        \<and> updater_ClientGetConfigs w (updater c) (ctx c) req = ((Some response, None), u)
        \<and> rsp_TargetFiles response = Some files
        \<and> applyUpdate w (c\<lparr>updater := u\<rparr>) response = ((changed, Some err), s)
      \<longrightarrow> update w c = (Returns (Some err), c\<lparr>updater := u, state := s\<rparr>, []))"
  by (simp add: update_def split: option.splits)

theorem update_error_passthrough_witness:
  "update demo_world (demo_client 13 []) = (Returns (Some ''corrupt''), demo_client 13 [], [])
   \<and> update demo_world (demo_client 4 []) = (Returns (Some ''unavailable''), demo_client 4 [], [])
   \<and> update demo_world (demo_client 4 [(Some ((demo_response [''DEBUG''])\<lparr>rsp_Targets := []\<rparr>), None)])
       = (Returns (Some ''bad targets''), demo_client 4 [], [])"
proof -
  let ?bad = "(demo_response [''DEBUG''])\<lparr>rsp_Targets := []\<rparr>"
  let ?c = "demo_client 4 [(Some ?bad, None)]"
  let ?req = "fst (newUpdateRequest demo_world ?c)"
  have a: "newUpdateRequest demo_world (demo_client 13 []) = (None, Some ''corrupt'')"
    by (simp add: newUpdateRequest_def demo_world_def demo_client_def)
  have b1: "newUpdateRequest demo_world (demo_client 4 []) =
      (fst (newUpdateRequest demo_world (demo_client 4 [])), None)"
    using demo_newUpdateRequest_ok [of 4 "[]"] by (simp add: prod_eq_iff)
  have b2: "updater_ClientGetConfigs demo_world (updater (demo_client 4 [])) (ctx (demo_client 4 []))
      (fst (newUpdateRequest demo_world (demo_client 4 []))) = ((None, Some ''unavailable''), [])"
    by (simp add: demo_world_def demo_client_def)
  have c1: "newUpdateRequest demo_world ?c = (?req, None)"
    using demo_newUpdateRequest_ok [of 4] by (simp add: prod_eq_iff)
  have c2: "updater_ClientGetConfigs demo_world (updater ?c) (ctx ?c) ?req = ((Some ?bad, None), [])"
    by (simp add: demo_world_def demo_client_def)
  have c3: "rsp_TargetFiles ?bad = Some [\<lparr>file_Path = ''a/b'', file_Raw = [0, 1]\<rparr>]"
    by (simp add: demo_response_def)
  have c4: "applyUpdate demo_world (?c\<lparr>updater := []\<rparr>) ?bad = (([], Some ''bad targets''), 4)"
    by (simp add: applyUpdate_def demo_world_def demo_client_def demo_response_def)
  have "update demo_world (demo_client 13 []) = (Returns (Some ''corrupt''), demo_client 13 [], [])"
    using update_error_passthrough [where w = demo_world and c = "demo_client 13 []"
        and req = None and err = "''corrupt''"] a
    by blast
  moreover have "update demo_world (demo_client 4 []) =
      (Returns (Some ''unavailable''), (demo_client 4 [])\<lparr>updater := []\<rparr>, [])"
    using update_error_passthrough [where w = demo_world and c = "demo_client 4 []"
        and req = "fst (newUpdateRequest demo_world (demo_client 4 []))" and rsp = None
        and err = "''unavailable''" and u = "[]"] b1 b2
    by blast
  moreover have "update demo_world ?c = (Returns (Some ''bad targets''), ?c\<lparr>updater := [], state := 4\<rparr>, [])"
    using update_error_passthrough [where w = demo_world and c = ?c and req = ?req
        and response = ?bad and err = "''bad targets''" and u = "[]" and changed = "[]" and s = 4] c1 c2 c3 c4
    by blast
  ultimately show ?thesis
    by (simp add: demo_client_def)
qed

section \<open>Properties of \<^verbatim>\<open>newUpdateRequest\<close>\<close>

lemma foldl_append_map: "foldl (\<lambda>acc x. acc @ [f x]) a xs = a @ map f xs"
  by (induction xs arbitrary: a) simp_all

lemma pbHashes_of_map:
  "pbHashes_of hashes =
     map (\<lambda>(alg, hash). \<lparr>tfh_Algorithm = alg, tfh_Hash = hex_EncodeToString hash\<rparr>) hashes"
proof -
  have "(\<lambda>pbHashes (alg, hash).
            pbHashes @ [\<lparr>tfh_Algorithm = alg, tfh_Hash = hex_EncodeToString hash\<rparr>]) =
        (\<lambda>pbHashes x. pbHashes @
            [(\<lambda>(alg, hash). \<lparr>tfh_Algorithm = alg, tfh_Hash = hex_EncodeToString hash\<rparr>) x])"
    by (simp add: fun_eq_iff split: prod.splits)
  then show ?thesis
    by (simp add: pbHashes_of_def foldl_append_map)
qed

lemma pbCachedFiles_of_map:
  "pbCachedFiles_of files =
     map (\<lambda>f. \<lparr>tfm_Path = cf_Path f, tfm_Length = cf_Length f,
               tfm_Hashes = pbHashes_of (cf_Hashes f)\<rparr>) files"
  by (simp add: pbCachedFiles_of_def foldl_append_map)

lemma pbConfigState_of_map:
  "pbConfigState_of configs =
     map (\<lambda>f. \<lparr>pcs_Id = cs_ID f, pcs_Version = cs_Version f, pcs_Product = cs_Product f\<rparr>) configs"
  by (simp add: pbConfigState_of_def foldl_append_map)

lemma pollLoop_stores_error:
  assumes "ctx c = Live" and "update w c = (Returns r, c', evs)"
  shows "fst (snd (pollLoop w [TimerFired] c)) = c'\<lparr>lastUpdateError := r\<rparr>"
  using assms by (simp split: prod.splits)

text \<open>
  Claim C3. When \<^verbatim>\<open>CurrentState\<close> succeeds, \<^verbatim>\<open>newUpdateRequest\<close> returns a request and no
  error, and the request's state part is read off the repository's current state and
  the last update error:
  \<^item> \<^verbatim>\<open>RootVersion\<close> and \<^verbatim>\<open>TargetsVersion\<close> are the state's \<^verbatim>\<open>RootsVersion\<close> and
    \<^verbatim>\<open>TargetsVersion\<close> (the same 64 bits);
  \<^item> \<^verbatim>\<open>ConfigStates\<close> has one entry per config, in order, with its ID, version and product;
  \<^item> \<^verbatim>\<open>CachedTargetFiles\<close> has one entry per cached file, in order, with its path, its
    length and one hash entry per hash of the file, the digest hex-encoded;
  \<^item> \<^verbatim>\<open>HasError\<close> says whether \<^verbatim>\<open>lastUpdateError\<close> is set, and \<^verbatim>\<open>Error\<close> is its message
    (the empty string when there is none).
  And \<^verbatim>\<open>lastUpdateError\<close> is what the previous attempt returned: after an iteration of the
  poll loop in which \<^verbatim>\<open>update\<close> returned \<open>r\<close>, the next request has \<^verbatim>\<open>HasError\<close> exactly
  when \<open>r\<close> is an error, with that error's message.
\<close>

theorem newUpdateRequest_from_state:
  "(state_CurrentState w (state c) = (s, None) \<longrightarrow>
      (\<exists>req. newUpdateRequest w c = (Some req, None)
         \<and> st_RootVersion (pc_State (req_Client req)) = rs_RootsVersion s
         \<and> st_TargetsVersion (pc_State (req_Client req)) = rs_TargetsVersion s
         \<and> st_ConfigStates (pc_State (req_Client req)) =
             map (\<lambda>f. \<lparr>pcs_Id = cs_ID f, pcs_Version = cs_Version f, pcs_Product = cs_Product f\<rparr>)
               (rs_Configs s)
         \<and> req_CachedTargetFiles req =
             map (\<lambda>f. \<lparr>tfm_Path = cf_Path f, tfm_Length = cf_Length f,
                       tfm_Hashes =
                         map (\<lambda>(alg, hash).
                                \<lparr>tfh_Algorithm = alg, tfh_Hash = hex_EncodeToString hash\<rparr>)
                           (cf_Hashes f)\<rparr>)
               (rs_CachedFiles s)
         \<and> st_HasError (pc_State (req_Client req)) = (lastUpdateError c \<noteq> None)
         \<and> st_Error (pc_State (req_Client req)) =
             (case lastUpdateError c of None \<Rightarrow> [] | Some e \<Rightarrow> error_Error w e)))
   \<and> (ctx c = Live \<and> update w c = (Returns r, c', evs)
        \<and> state_CurrentState w (state c') = (s', None) \<longrightarrow>
      (\<exists>req'. newUpdateRequest w (fst (snd (pollLoop w [TimerFired] c))) = (Some req', None)
         \<and> st_HasError (pc_State (req_Client req')) = (r \<noteq> None)
         \<and> st_Error (pc_State (req_Client req')) =
             (case r of None \<Rightarrow> [] | Some e \<Rightarrow> error_Error w e)))"
proof (intro conjI impI)
  assume "state_CurrentState w (state c) = (s, None)"
  then show "\<exists>req. newUpdateRequest w c = (Some req, None)
         \<and> st_RootVersion (pc_State (req_Client req)) = rs_RootsVersion s
         \<and> st_TargetsVersion (pc_State (req_Client req)) = rs_TargetsVersion s
         \<and> st_ConfigStates (pc_State (req_Client req)) =
             map (\<lambda>f. \<lparr>pcs_Id = cs_ID f, pcs_Version = cs_Version f, pcs_Product = cs_Product f\<rparr>)
               (rs_Configs s)
         \<and> req_CachedTargetFiles req =
             map (\<lambda>f. \<lparr>tfm_Path = cf_Path f, tfm_Length = cf_Length f,
                       tfm_Hashes =
                         map (\<lambda>(alg, hash).
                                \<lparr>tfh_Algorithm = alg, tfh_Hash = hex_EncodeToString hash\<rparr>)
                           (cf_Hashes f)\<rparr>)
               (rs_CachedFiles s)
         \<and> st_HasError (pc_State (req_Client req)) = (lastUpdateError c \<noteq> None)
         \<and> st_Error (pc_State (req_Client req)) =
             (case lastUpdateError c of None \<Rightarrow> [] | Some e \<Rightarrow> error_Error w e)"
    by (simp add: newUpdateRequest_def pbCachedFiles_of_map pbConfigState_of_map pbHashes_of_map)
next
  assume a: "ctx c = Live \<and> update w c = (Returns r, c', evs)
        \<and> state_CurrentState w (state c') = (s', None)"
  then have next_client: "fst (snd (pollLoop w [TimerFired] c)) = c'\<lparr>lastUpdateError := r\<rparr>"
    using pollLoop_stores_error [of c w r c' evs] by simp
  from a have "state_CurrentState w (state (c'\<lparr>lastUpdateError := r\<rparr>)) = (s', None)"
    by simp
  then show "\<exists>req'. newUpdateRequest w (fst (snd (pollLoop w [TimerFired] c))) = (Some req', None)
         \<and> st_HasError (pc_State (req_Client req')) = (r \<noteq> None)
         \<and> st_Error (pc_State (req_Client req')) =
             (case r of None \<Rightarrow> [] | Some e \<Rightarrow> error_Error w e)"
    unfolding next_client by (simp add: newUpdateRequest_def)
qed

lemma demo_update_unavailable:
  "n \<noteq> 13 \<Longrightarrow> update demo_world ((demo_client n [])\<lparr>lastUpdateError := e\<rparr>) =
     (Returns (Some ''unavailable''), (demo_client n [])\<lparr>lastUpdateError := e\<rparr>, [])"
  by (simp add: update_def newUpdateRequest_def demo_world_def demo_client_def)

lemma hex_demo: "hex_EncodeToString [0xde, 0x0a] = ''de0a''"
  by (simp add: hex_EncodeToString_def hextable_def drop_bit_eq_div)

theorem newUpdateRequest_from_state_witness:
  "(\<exists>req. newUpdateRequest demo_world ((demo_client 4 [])\<lparr>lastUpdateError := Some ''unavailable''\<rparr>)
            = (Some req, None)
      \<and> st_RootVersion (pc_State (req_Client req)) = 1
      \<and> st_TargetsVersion (pc_State (req_Client req)) = 4
      \<and> st_ConfigStates (pc_State (req_Client req)) =
          [\<lparr>pcs_Id = ''cfg'', pcs_Version = 3, pcs_Product = ''DEBUG''\<rparr>]
      \<and> req_CachedTargetFiles req =
          [\<lparr>tfm_Path = ''a/b'', tfm_Length = 2,
            tfm_Hashes = [\<lparr>tfh_Algorithm = ''sha256'', tfh_Hash = ''de0a''\<rparr>]\<rparr>]
      \<and> st_HasError (pc_State (req_Client req)) = True
      \<and> st_Error (pc_State (req_Client req)) = ''unavailable'')
   \<and> fst (update demo_world (demo_client 4 [])) = Returns (Some ''unavailable'')
   \<and> (\<exists>req'. newUpdateRequest demo_world (fst (snd (pollLoop demo_world [TimerFired] (demo_client 4 []))))
            = (Some req', None)
      \<and> st_HasError (pc_State (req_Client req')) = True
      \<and> st_Error (pc_State (req_Client req')) = ''unavailable'')"
proof -
  let ?c = "(demo_client 4 [])\<lparr>lastUpdateError := Some ''unavailable''\<rparr>"
  let ?s = "\<lparr>rs_Configs = [\<lparr>cs_ID = ''cfg'', cs_Version = 3, cs_Product = ''DEBUG''\<rparr>],
             rs_CachedFiles = [\<lparr>cf_Path = ''a/b'', cf_Length = 2,
                                cf_Hashes = [(''sha256'', [0xde, 0x0a])]\<rparr>],
             rs_TargetsVersion = 4, rs_RootsVersion = 1,
             rs_OpaqueBackendState = [7]\<rparr>"
  have cur: "state_CurrentState demo_world (state ?c) = (?s, None)"
    by (simp add: demo_world_def demo_client_def)
  have first: "\<exists>req. newUpdateRequest demo_world ?c = (Some req, None)
      \<and> st_RootVersion (pc_State (req_Client req)) = 1
      \<and> st_TargetsVersion (pc_State (req_Client req)) = 4
      \<and> st_ConfigStates (pc_State (req_Client req)) =
          [\<lparr>pcs_Id = ''cfg'', pcs_Version = 3, pcs_Product = ''DEBUG''\<rparr>]
      \<and> req_CachedTargetFiles req =
          [\<lparr>tfm_Path = ''a/b'', tfm_Length = 2,
            tfm_Hashes = [\<lparr>tfh_Algorithm = ''sha256'', tfh_Hash = ''de0a''\<rparr>]\<rparr>]
      \<and> st_HasError (pc_State (req_Client req)) = True
      \<and> st_Error (pc_State (req_Client req)) = ''unavailable''"
    using newUpdateRequest_from_state [where w = demo_world and c = ?c and s = ?s] cur
    by (simp add: hex_demo demo_world_def demo_client_def)
  let ?c0 = "demo_client 4 []"
  have same: "?c0\<lparr>lastUpdateError := None\<rparr> = ?c0"
    by (simp add: demo_client_def)
  have upd: "update demo_world ?c0 = (Returns (Some ''unavailable''), ?c0, [])"
    using demo_update_unavailable [of 4 None] by (simp add: same)
  have live: "ctx ?c0 = Live"
    by (simp add: demo_client_def)
  have cur0: "state_CurrentState demo_world (state ?c0) = (?s, None)"
    by (simp add: demo_world_def demo_client_def)
  have "\<exists>req'. newUpdateRequest demo_world (fst (snd (pollLoop demo_world [TimerFired] ?c0)))
            = (Some req', None)
      \<and> st_HasError (pc_State (req_Client req')) = (Some ''unavailable'' \<noteq> None)
      \<and> st_Error (pc_State (req_Client req')) =
          (case Some ''unavailable'' of None \<Rightarrow> [] | Some e \<Rightarrow> error_Error demo_world e)"
    using newUpdateRequest_from_state [where w = demo_world and c = ?c0 and r = "Some ''unavailable''"
        and c' = ?c0 and evs = "[]" and s' = ?s] upd live cur0
    by blast
  then have second: "\<exists>req'. newUpdateRequest demo_world (fst (snd (pollLoop demo_world [TimerFired] ?c0)))
            = (Some req', None)
      \<and> st_HasError (pc_State (req_Client req')) = True
      \<and> st_Error (pc_State (req_Client req')) = ''unavailable''"
    by (simp add: demo_world_def)
  from first second upd show ?thesis
    by simp
qed

text \<open>
  Claim C7. The agent version given to \<^verbatim>\<open>NewClient\<close> reaches no request: every request
  that \<^verbatim>\<open>newUpdateRequest\<close> builds carries the client-agent version \<^verbatim>\<open>"9.9.9"\<close>; changing
  the client's \<^verbatim>\<open>agentVersion\<close> changes neither the request (nor the error) that
  \<^verbatim>\<open>newUpdateRequest\<close> returns; and two clients built by \<^verbatim>\<open>NewClient\<close> from the same
  arguments but for the agent version differ in the field \<^verbatim>\<open>agentVersion\<close> only, so they
  build the same request.
\<close>

theorem agentVersion_not_in_request:
  "(newUpdateRequest w c = (Some req, None) \<longrightarrow>
      ca_Version (pc_ClientAgent (req_Client req)) = ''9.9.9'')
   \<and> newUpdateRequest w (c\<lparr>agentVersion := v\<rparr>) = newUpdateRequest w c
   \<and> (NewClient w rnd rerr name upd v1 prods interval = Returns (Some c1, None) \<longrightarrow>
        NewClient w rnd rerr name upd v2 prods interval =
          Returns (Some (c1\<lparr>agentVersion := v2\<rparr>), None)
      \<and> agentVersion c1 = v1
      \<and> newUpdateRequest w (c1\<lparr>agentVersion := v2\<rparr>) = newUpdateRequest w c1)"
proof (intro conjI impI)
  assume "newUpdateRequest w c = (Some req, None)"
  then show "ca_Version (pc_ClientAgent (req_Client req)) = ''9.9.9''"
    by (auto simp: newUpdateRequest_def split: prod.splits option.splits)
next
  show "newUpdateRequest w (c\<lparr>agentVersion := v\<rparr>) = newUpdateRequest w c"
    by (simp add: newUpdateRequest_def Let_def split: prod.splits option.splits)
next
  assume built: "NewClient w rnd rerr name upd v1 prods interval = Returns (Some c1, None)"
  then show "NewClient w rnd rerr name upd v2 prods interval =
      Returns (Some (c1\<lparr>agentVersion := v2\<rparr>), None)"
    by (auto simp: NewClient_def newClient_def Let_def
        split: prod.splits option.splits outcome.splits)
  from built show "agentVersion c1 = v1"
    by (auto simp: NewClient_def newClient_def Let_def
        split: prod.splits option.splits outcome.splits)
  show "newUpdateRequest w (c1\<lparr>agentVersion := v2\<rparr>) = newUpdateRequest w c1"
    by (simp add: newUpdateRequest_def Let_def split: prod.splits option.splits)
qed

lemma demo_NewClient:
  "\<exists>c :: (nat, nat, (ClientGetConfigsResponse option \<times> string option) list, string) Client.
      NewClient demo_world [] None ''operator'' [] v [''DEBUG''] p = Returns (Some c, None)"
  by (simp add: NewClient_def newClient_def generateID_value demo_world_def)

theorem agentVersion_not_in_request_witness:
  "\<exists>c1 :: (nat, nat, (ClientGetConfigsResponse option \<times> string option) list, string) Client.
      NewClient demo_world [] None ''operator'' [] ''7.50.0'' [''DEBUG''] (7 * Second)
        = Returns (Some c1, None)
    \<and> agentVersion c1 = ''7.50.0''
    \<and> NewClient demo_world [] None ''operator'' [] ''1.0.0'' [''DEBUG''] (7 * Second)
        = Returns (Some (c1\<lparr>agentVersion := ''1.0.0''\<rparr>), None)
    \<and> (\<exists>req. newUpdateRequest demo_world c1 = (Some req, None)
          \<and> ca_Version (pc_ClientAgent (req_Client req)) = ''9.9.9'')"
proof -
  obtain c1 :: "(nat, nat, (ClientGetConfigsResponse option \<times> string option) list, string) Client"
    where built: "NewClient demo_world [] None ''operator'' [] ''7.50.0'' [''DEBUG''] (7 * Second)
        = Returns (Some c1, None)"
    by (simp add: NewClient_def newClient_def generateID_value demo_world_def)
  then have st: "state c1 = 0"
    by (auto simp: NewClient_def newClient_def generateID_value demo_world_def)
  obtain req where req: "newUpdateRequest demo_world c1 = (Some req, None)"
    using st by (simp add: newUpdateRequest_def demo_world_def)
  show ?thesis
    using agentVersion_not_in_request [where w = demo_world and c = c1 and req = req
        and rnd = "[]" and rerr = None and name = "''operator''" and upd = "[]"
        and ?v1.0 = "''7.50.0''" and ?v2.0 = "''1.0.0''" and prods = "[''DEBUG'']"
        and interval = "7 * Second" and ?c1.0 = c1]
      built req
    by blast
qed

section \<open>Properties of \<^verbatim>\<open>Start\<close>, \<^verbatim>\<open>Close\<close> and \<^verbatim>\<open>pollLoop\<close>\<close>

lemma count_list_append: "count_list (xs @ ys) x = count_list xs x + count_list ys x"
  by (induction xs) simp_all

lemma perform_startupSync:
  "startupSync c \<Longrightarrow> startupSync (fst (perform w c x)) \<and> count_list (snd (perform w c x)) Go_pollLoop = 0"
  by (cases x) (simp_all add: Start_def Close_def RegisterDebug_def)

lemma perform_starts_once:
  "count_list (snd (perform w c x)) Go_pollLoop \<le> 1
   \<and> (count_list (snd (perform w c x)) Go_pollLoop = 1 \<longrightarrow> startupSync (fst (perform w c x)))"
  by (cases x) (simp_all add: Start_def startFn_def Close_def RegisterDebug_def)

lemma perform_all_started:
  "startupSync c \<Longrightarrow> count_list (snd (perform_all w c calls)) Go_pollLoop = 0"
proof (induction calls arbitrary: c)
  case Nil
  then show ?case by simp
next
  case (Cons x xs)
  obtain c' evs where p: "perform w c x = (c', evs)"
    by (cases "perform w c x")
  obtain c'' evs' where q: "perform_all w c' xs = (c'', evs')"
    by (cases "perform_all w c' xs")
  from perform_startupSync [OF Cons.prems, of w x] p
  have "startupSync c'" and "count_list evs Go_pollLoop = 0"
    by simp_all
  moreover from Cons.IH [OF \<open>startupSync c'\<close>] q have "count_list evs' Go_pollLoop = 0"
    by simp
  ultimately show ?case
    using p q by (simp add: count_list_append)
qed

lemma perform_all_at_most_once:
  "count_list (snd (perform_all w c calls)) Go_pollLoop \<le> 1"
proof (induction calls arbitrary: c)
  case Nil
  then show ?case by simp
next
  case (Cons x xs)
  obtain c' evs where p: "perform w c x = (c', evs)"
    by (cases "perform w c x")
  obtain c'' evs' where q: "perform_all w c' xs = (c'', evs')"
    by (cases "perform_all w c' xs")
  have one: "count_list evs Go_pollLoop \<le> 1"
    and started: "count_list evs Go_pollLoop = 1 \<Longrightarrow> startupSync c'"
    using perform_starts_once [of w c x] p by simp_all
  show ?case
  proof (cases "count_list evs Go_pollLoop = 1")
    case True
    then have "count_list evs' Go_pollLoop = 0"
      using perform_all_started [OF started, of w xs] q by simp
    then show ?thesis
      using p q True by (simp add: count_list_append)
  next
    case False
    then have "count_list evs Go_pollLoop = 0"
      using one by simp
    moreover have "count_list evs' Go_pollLoop \<le> 1"
      using Cons.IH [of c'] q by simp
    ultimately show ?thesis
      using p q by (simp add: count_list_append)
  qed
qed

lemma perform_all_stays_cancelled:
  "ctx c = Cancelled \<Longrightarrow> ctx (fst (perform_all w c calls)) = Cancelled"
proof (induction calls arbitrary: c)
  case Nil
  then show ?case by simp
next
  case (Cons x xs)
  have "ctx (fst (perform w c x)) = Cancelled"
    using Cons.prems by (cases x) (simp_all add: Start_def Close_def RegisterDebug_def)
  from Cons.IH [OF this] show ?case
    by (auto split: prod.splits)
qed

lemma pollLoop_cancelled:
  "ctx c = Cancelled \<Longrightarrow> pollLoop w sel c = (LoopReturned, c, [After (Second * 5)])"
  by (cases "(w, sel, c)" rule: pollLoop.cases) simp_all

text \<open>
  Claim C5. However often and in whatever order \<^verbatim>\<open>Start\<close>, \<^verbatim>\<open>Close\<close> and \<^verbatim>\<open>RegisterDebug\<close>
  are called on a client, \<^verbatim>\<open>go c.pollLoop()\<close> runs at most once. The first \<^verbatim>\<open>Start\<close> starts
  the loop and sets the \<^verbatim>\<open>Once\<close>; every \<^verbatim>\<open>Start\<close> after it changes nothing and has no
  event; a client built by \<^verbatim>\<open>NewClient\<close> has not started. A closed client stays closed
  (no call makes its context live again), a client that was started and closed starts
  no loop again, and a poll loop entered with a cancelled context returns at its first
  \<^verbatim>\<open>select\<close> without an update.
\<close>

theorem Start_at_most_once:
  "count_list (snd (perform_all w c calls)) Go_pollLoop \<le> 1
   \<and> (\<not> startupSync c \<longrightarrow>
        Start c = (c\<lparr>startupSync := True\<rparr>, [Go_pollLoop :: ('l, 'dc) event]))
   \<and> (startupSync c \<longrightarrow>
        Start c = (c, [] :: ('l, 'dc) event list)
      \<and> count_list (snd (perform_all w c calls)) Go_pollLoop = 0)
   \<and> (NewClient w rnd rerr name upd v prods interval = Returns (Some c, None) \<longrightarrow>
        \<not> startupSync c \<and> ctx c = Live)
   \<and> (ctx c = Cancelled \<longrightarrow>
        ctx (fst (perform_all w c calls)) = Cancelled
      \<and> pollLoop w sel c = (LoopReturned, c, [After (Second * 5)]))"
proof (intro conjI impI)
  show "count_list (snd (perform_all w c calls)) Go_pollLoop \<le> 1"
    by (rule perform_all_at_most_once)
next
  assume "\<not> startupSync c"
  then show "Start c = (c\<lparr>startupSync := True\<rparr>, [Go_pollLoop :: ('l, 'dc) event])"
    by (simp add: Start_def startFn_def)
next
  assume "startupSync c"
  then show "Start c = (c, [] :: ('l, 'dc) event list)"
    by (simp add: Start_def)
next
  assume "startupSync c"
  then show "count_list (snd (perform_all w c calls)) Go_pollLoop = 0"
    by (rule perform_all_started)
next
  assume built: "NewClient w rnd rerr name upd v prods interval = Returns (Some c, None)"
  then show "\<not> startupSync c"
    by (auto simp: NewClient_def newClient_def Let_def
        split: prod.splits option.splits outcome.splits)
  from built show "ctx c = Live"
    by (auto simp: NewClient_def newClient_def Let_def
        split: prod.splits option.splits outcome.splits)
next
  assume "ctx c = Cancelled"
  then show "ctx (fst (perform_all w c calls)) = Cancelled"
    by (rule perform_all_stays_cancelled)
next
  assume "ctx c = Cancelled"
  then show "pollLoop w sel c = (LoopReturned, c, [After (Second * 5)])"
    by (rule pollLoop_cancelled)
qed

theorem Start_at_most_once_witness:
  "count_list (snd (perform_all demo_world (demo_client 4 [])
      [CallStart, CallRegisterDebug 30, CallStart, CallClose, CallStart])) Go_pollLoop = 1
   \<and> Start (demo_client 4 []) =
        ((demo_client 4 [])\<lparr>startupSync := True\<rparr>, [Go_pollLoop :: (nat, nat) event])
   \<and> Start ((demo_client 4 [])\<lparr>startupSync := True\<rparr>) =
        ((demo_client 4 [])\<lparr>startupSync := True\<rparr>, [] :: (nat, nat) event list)
   \<and> pollLoop demo_world [TimerFired, TimerFired] (Close (demo_client 4 [])) =
        (LoopReturned, Close (demo_client 4 []), [After 5000000000])
   \<and> (\<exists>c :: (nat, nat, (ClientGetConfigsResponse option \<times> string option) list, string) Client.
         NewClient demo_world [] None ''operator'' [] ''7.50.0'' [''DEBUG''] (7 * Second)
           = Returns (Some c, None)
       \<and> \<not> startupSync c \<and> ctx c = Live)"
proof -
  let ?c = "demo_client 4 []"
  let ?calls = "[CallStart, CallRegisterDebug 30, CallStart, CallClose, CallStart]"
  obtain c0 :: "(nat, nat, (ClientGetConfigsResponse option \<times> string option) list, string) Client"
    where built: "NewClient demo_world [] None ''operator'' [] ''7.50.0'' [''DEBUG''] (7 * Second)
        = Returns (Some c0, None)"
    using demo_NewClient by blast
  have new: "\<not> startupSync c0 \<and> ctx c0 = Live"
    using Start_at_most_once [where w = demo_world and c = c0 and rnd = "[]" and rerr = None
        and name = "''operator''" and upd = "[]" and v = "''7.50.0''" and prods = "[''DEBUG'']"
        and interval = "7 * Second"] built
    by blast
  have fresh: "\<not> startupSync ?c"
    by (simp add: demo_client_def)
  have started: "startupSync (?c\<lparr>startupSync := True\<rparr>)"
    by simp
  have closed: "ctx (Close ?c) = Cancelled"
    by (simp add: Close_def)
  have "count_list (snd (perform_all demo_world ?c ?calls)) Go_pollLoop \<le> 1"
    using Start_at_most_once [where w = demo_world and c = ?c and calls = ?calls] by blast
  moreover have "count_list (snd (perform_all demo_world ?c ?calls)) Go_pollLoop \<ge> 1"
    by (simp add: Start_def startFn_def Close_def RegisterDebug_def demo_client_def)
  moreover have "Start ?c = (?c\<lparr>startupSync := True\<rparr>, [Go_pollLoop :: (nat, nat) event])"
    using Start_at_most_once [where c = ?c and 'l = nat and 'dc = nat] fresh by blast
  moreover have "Start (?c\<lparr>startupSync := True\<rparr>) =
      (?c\<lparr>startupSync := True\<rparr>, [] :: (nat, nat) event list)"
    using Start_at_most_once [where c = "?c\<lparr>startupSync := True\<rparr>" and 'l = nat and 'dc = nat]
      started by blast
  moreover have "pollLoop demo_world [TimerFired, TimerFired] (Close ?c) =
      (LoopReturned, Close ?c, [After (Second * 5)])"
    using Start_at_most_once [where w = demo_world and c = "Close ?c"
        and sel = "[TimerFired, TimerFired]"] closed by blast
  ultimately show ?thesis
    using built new by (simp add: Second_def)
qed

lemma timers_append: "timers (xs @ ys) = timers xs @ timers ys"
  by (induction xs rule: timers.induct) simp_all

lemma timers_Invoke_map: "timers (map (\<lambda>l. Invoke l d) ls) = []"
  by (induction ls) simp_all

lemma timers_notifyListeners: "timers (notifyListeners w c changed) = []"
  by (simp add: notifyListeners_def timers_append timers_Invoke_map)

lemma timers_update: "timers (snd (snd (update w c))) = []"
  by (auto simp: update_def timers_notifyListeners split: prod.splits option.splits)

lemma newUpdateRequest_pollInterval:
  "newUpdateRequest w (c\<lparr>pollInterval := p\<rparr>) = newUpdateRequest w c"
  by (simp add: newUpdateRequest_def Let_def split: prod.splits option.splits)

lemma update_pollInterval:
  "update w (c\<lparr>pollInterval := p\<rparr>) =
     (case update w c of (r, c', evs) \<Rightarrow> (r, c'\<lparr>pollInterval := p\<rparr>, evs))"
proof -
  obtain req e where n: "newUpdateRequest w c = (req, e)"
    by (cases "newUpdateRequest w c")
  obtain rsp e2 u where g: "updater_ClientGetConfigs w (updater c) (ctx c) req = ((rsp, e2), u)"
    by (cases "updater_ClientGetConfigs w (updater c) (ctx c) req") auto
  show ?thesis
  proof (cases e)
    case (Some err)
    then show ?thesis
      using n by (simp add: update_def newUpdateRequest_pollInterval)
  next
    case None
    note e_none = this
    show ?thesis
    proof (cases e2)
      case (Some err)
      then show ?thesis
        using n e_none g by (cases rsp) (simp_all add: update_def newUpdateRequest_pollInterval)
    next
      case None
      note e2_none = this
      show ?thesis
      proof (cases rsp)
        case None
        then show ?thesis
          using n e_none g e2_none by (simp add: update_def newUpdateRequest_pollInterval)
      next
        case (Some response)
        obtain changed e3 s where a: "applyUpdate w (c\<lparr>updater := u\<rparr>) response = ((changed, e3), s)"
          by (cases "applyUpdate w (c\<lparr>updater := u\<rparr>) response") auto
        have a': "applyUpdate w (c\<lparr>pollInterval := p, updater := u\<rparr>) response = ((changed, e3), s)"
          using a by (simp add: applyUpdate_def)
        have nl: "notifyListeners w (c\<lparr>pollInterval := p, updater := u, state := s\<rparr>) changed =
            notifyListeners w (c\<lparr>updater := u, state := s\<rparr>) changed"
          by (simp add: notifyListeners_def)
        show ?thesis
          using n e_none g e2_none Some a a' nl
          by (cases e3) (simp_all add: update_def newUpdateRequest_pollInterval)
      qed
    qed
  qed
qed

lemma pollLoop_pollInterval:
  "pollLoop w sel (c\<lparr>pollInterval := p\<rparr>) =
     (case pollLoop w sel c of (status, c', evs) \<Rightarrow> (status, c'\<lparr>pollInterval := p\<rparr>, evs))"
proof (induction sel arbitrary: c)
  case Nil
  then show ?case by simp
next
  case (Cons x rest)
  show ?case
  proof (cases x)
    case CtxDone
    then show ?thesis by simp
  next
    case TimerFired
    obtain r c' evs where u: "update w c = (r, c', evs)"
      by (cases "update w c")
    then have u': "update w (c\<lparr>pollInterval := p\<rparr>) = (r, c'\<lparr>pollInterval := p\<rparr>, evs)"
      by (simp add: update_pollInterval)
    show ?thesis
    proof (cases r)
      case Panic
      then show ?thesis
        using TimerFired u u' by simp
    next
      case (Returns err)
      have swap: "c'\<lparr>pollInterval := p\<rparr>\<lparr>lastUpdateError := err\<rparr> =
          c'\<lparr>lastUpdateError := err\<rparr>\<lparr>pollInterval := p\<rparr>"
        by simp
      have ih: "pollLoop w rest (c'\<lparr>pollInterval := p\<rparr>\<lparr>lastUpdateError := err\<rparr>) =
          (case pollLoop w rest (c'\<lparr>lastUpdateError := err\<rparr>) of
             (status, c'', evs') \<Rightarrow> (status, c''\<lparr>pollInterval := p\<rparr>, evs'))"
        unfolding swap by (rule Cons.IH)
      have "pollLoop w (TimerFired # rest) (c\<lparr>pollInterval := p\<rparr>) =
          (case pollLoop w rest (c'\<lparr>pollInterval := p\<rparr>\<lparr>lastUpdateError := err\<rparr>) of
             (status, c'', evs') \<Rightarrow>
               if ctx c = Cancelled then (LoopReturned, c\<lparr>pollInterval := p\<rparr>, [After (Second * 5)])
               else (status, c'', After (Second * 5) # evs @ evs'))"
        using Returns u' by (simp del: pollLoop.simps(1) add: pollLoop.simps(3) split: prod.splits)
      then show ?thesis
        unfolding ih using TimerFired Returns u by (simp split: prod.splits)
    qed
  qed
qed

lemma pollLoop_timers:
  "set (timers (snd (snd (pollLoop w sel c)))) \<subseteq> {Second * 5}
   \<and> length (timers (snd (snd (pollLoop w sel c)))) \<le> Suc (length sel)"
proof (induction sel arbitrary: c)
  case Nil
  then show ?case by simp
next
  case (Cons x rest)
  show ?case
  proof (cases x)
    case CtxDone
    then show ?thesis by simp
  next
    case TimerFired
    obtain r c' evs where u: "update w c = (r, c', evs)"
      by (cases "update w c")
    then have quiet: "timers evs = []"
      using timers_update [of w c] by simp
    show ?thesis
    proof (cases r)
      case Panic
      then show ?thesis
        using TimerFired u quiet by simp
    next
      case (Returns err)
      obtain status c'' evs' where l: "pollLoop w rest (c'\<lparr>lastUpdateError := err\<rparr>) = (status, c'', evs')"
        by (cases "pollLoop w rest (c'\<lparr>lastUpdateError := err\<rparr>)")
      then have "set (timers evs') \<subseteq> {Second * 5} \<and> length (timers evs') \<le> Suc (length rest)"
        using Cons.IH [of "c'\<lparr>lastUpdateError := err\<rparr>"] by simp
      then show ?thesis
        using TimerFired Returns u quiet l by (simp add: timers_append)
    qed
  qed
qed

lemma pollLoop_wait_then_update:
  "ctx c = Live \<Longrightarrow>
     \<exists>tail. snd (snd (pollLoop w (TimerFired # rest) c)) =
       After (Second * 5) # update_events w c @ tail"
  by (auto simp: update_events_def split: prod.splits outcome.splits)

lemma update_ctx: "ctx (fst (snd (update w c))) = ctx c"
proof -
  obtain req e where n: "newUpdateRequest w c = (req, e)"
    by (cases "newUpdateRequest w c")
  obtain rsp e2 u where g: "updater_ClientGetConfigs w (updater c) (ctx c) req = ((rsp, e2), u)"
    by (cases "updater_ClientGetConfigs w (updater c) (ctx c) req") auto
  show ?thesis
  proof (cases e)
    case (Some err)
    then show ?thesis
      using n by (simp add: update_def)
  next
    case None
    note e_none = this
    show ?thesis
    proof (cases rsp)
      case None
      then show ?thesis
        using n e_none g by (cases e2) (simp_all add: update_def)
    next
      case (Some response)
      obtain changed e3 s where a: "applyUpdate w (c\<lparr>updater := u\<rparr>) response = ((changed, e3), s)"
        by (cases "applyUpdate w (c\<lparr>updater := u\<rparr>) response") auto
      show ?thesis
        using n e_none g Some a by (cases e2; cases e3) (simp_all add: update_def)
    qed
  qed
qed

text \<open>
  A run of \<open>n\<close> iterations in which the timer fires and \<^verbatim>\<open>update\<close> returns, followed by
  whatever the loop does from then on. \<open>cs i\<close> is the client at the \<open>i\<close>-th \<^verbatim>\<open>select\<close>.
\<close>

lemma pollLoop_iterations:
  assumes "ctx c = Live" and "cs 0 = c"
    and "\<forall>i < n. \<exists>r. fst (update w (cs i)) = Returns r
            \<and> cs (Suc i) = (fst (snd (update w (cs i))))\<lparr>lastUpdateError := r\<rparr>"
  shows "ctx (cs n) = Live
       \<and> pollLoop w (replicate n TimerFired @ sel) c =
           (case pollLoop w sel (cs n) of
              (status, c', evs) \<Rightarrow>
                (status, c',
                 concat (map (\<lambda>i. After (Second * 5) # update_events w (cs i)) [0..<n]) @ evs))"
  using assms
proof (induction n arbitrary: c cs)
  case 0
  then show ?case
    by (simp split: prod.splits)
next
  case (Suc n)
  from Suc.prems(3) obtain r
    where r: "fst (update w (cs 0)) = Returns r"
      and next_c: "cs (Suc 0) = (fst (snd (update w (cs 0))))\<lparr>lastUpdateError := r\<rparr>"
    by blast
  obtain x c1 evs1 where u: "update w c = (x, c1, evs1)"
    by (cases "update w c")
  have x: "x = Returns r" and c1: "cs (Suc 0) = c1\<lparr>lastUpdateError := r\<rparr>"
    and evs1: "update_events w c = evs1"
    using u r next_c Suc.prems(2) by (simp_all add: update_events_def)
  have live': "ctx (cs (Suc 0)) = Live"
    using c1 u Suc.prems(1) update_ctx [of w c] by simp
  have shifted: "\<forall>i < n. \<exists>r. fst (update w (cs (Suc i))) = Returns r
      \<and> cs (Suc (Suc i)) = (fst (snd (update w (cs (Suc i)))))\<lparr>lastUpdateError := r\<rparr>"
    using Suc.prems(3) by simp
  from Suc.IH [of "cs (Suc 0)" "\<lambda>i. cs (Suc i)", OF live' refl shifted]
  have live: "ctx (cs (Suc n)) = Live"
    and ih: "pollLoop w (replicate n TimerFired @ sel) (cs (Suc 0)) =
        (case pollLoop w sel (cs (Suc n)) of
           (status, c', evs) \<Rightarrow>
             (status, c',
              concat (map (\<lambda>i. After (Second * 5) # update_events w (cs (Suc i))) [0..<n]) @ evs))"
    by simp_all
  have step: "pollLoop w (replicate (Suc n) TimerFired @ sel) c =
      (case pollLoop w (replicate n TimerFired @ sel) (cs (Suc 0)) of
         (status, c'', evs') \<Rightarrow> (status, c'', After (Second * 5) # update_events w c @ evs'))"
    using Suc.prems(1) u x c1 evs1 by simp
  have events: "concat (map (\<lambda>i. After (Second * 5) # update_events w (cs i)) [0..<Suc n]) =
      After (Second * 5) # update_events w c @
      concat (map (\<lambda>i. After (Second * 5) # update_events w (cs (Suc i))) [0..<n])"
    using Suc.prems(2) by (simp only: map_upt_Suc) simp
  show ?case
    unfolding step ih events using live by (simp split: prod.splits)
qed

text \<open>
  Claim C4. Every timer the poll loop arms is one of 5 seconds (5000000000 ns), one per
  \<^verbatim>\<open>select\<close>, whatever the client's \<^verbatim>\<open>pollInterval\<close> and whatever the updates returned:
  \<^item> the timers of a run are \<open>k\<close> copies of 5 seconds, where \<open>k\<close> is at most the number of
    \<^verbatim>\<open>select\<close>s the run went through;
  \<^item> an update attempt comes right after a timer of 5 seconds of its own iteration;
  \<^item> a run from a client with another \<^verbatim>\<open>pollInterval\<close> is the same run (status, events,
    final client but for that field), and \<^verbatim>\<open>NewClient\<close> stores its \<^verbatim>\<open>pollInterval\<close>
    argument in that field only;
  \<^item> once the context is cancelled the loop returns at its next \<^verbatim>\<open>select\<close>;
  \<^item> the whole run, for a loop entered with a live context whose timer fires \<open>n\<close> times
    with \<^verbatim>\<open>update\<close> returning each time (\<open>cs i\<close> is the client at the \<open>i\<close>-th \<^verbatim>\<open>select\<close>:
    the client the update before it left, with what that update returned stored in
    \<^verbatim>\<open>lastUpdateError\<close>): the events are exactly, \<open>n\<close> times, a timer of 5 seconds
    followed by the events of that iteration's update, and then one more timer of
    5 seconds; no update goes without its own timer before it, and no timer but the
    last goes without its update. If the context is cancelled at the next \<^verbatim>\<open>select\<close> the
    loop returns there, without a further update, whatever would come later; if
    nothing happens yet the loop is waiting on that last timer; and if the next update
    panics the loop ends with that update's events.
  Time itself is not modelled: the statement is about the duration each \<^verbatim>\<open>time.After\<close>
  is given.
\<close>

theorem pollLoop_fixed_wait:
  "(\<exists>k \<le> Suc (length sel).
       timers (snd (snd (pollLoop w sel c))) = replicate k 5000000000)
   \<and> (ctx c = Live \<longrightarrow>
        (\<exists>tail. snd (snd (pollLoop w (TimerFired # rest) c)) =
           After 5000000000 # update_events w c @ tail))
   \<and> pollLoop w sel (c\<lparr>pollInterval := p\<rparr>) =
        (case pollLoop w sel c of (status, c', evs) \<Rightarrow> (status, c'\<lparr>pollInterval := p\<rparr>, evs))
   \<and> (NewClient w rnd rerr name upd v prods p1 = Returns (Some c1, None) \<longrightarrow>
        NewClient w rnd rerr name upd v prods p2 = Returns (Some (c1\<lparr>pollInterval := p2\<rparr>), None))
   \<and> (ctx c = Cancelled \<longrightarrow> pollLoop w sel c = (LoopReturned, c, [After 5000000000]))
   \<and> (ctx c = Live \<and> cs 0 = c
        \<and> (\<forall>i < n. \<exists>r. fst (update w (cs i)) = Returns r
                \<and> cs (Suc i) = (fst (snd (update w (cs i))))\<lparr>lastUpdateError := r\<rparr>)
      \<longrightarrow>
        pollLoop w (replicate n TimerFired @ CtxDone # rest) c =
          (LoopReturned, (cs n)\<lparr>ctx := Cancelled\<rparr>,
           concat (map (\<lambda>i. After 5000000000 # update_events w (cs i)) [0..<n])
             @ [After 5000000000])
      \<and> pollLoop w (replicate n TimerFired) c =
          (LoopWaiting, cs n,
           concat (map (\<lambda>i. After 5000000000 # update_events w (cs i)) [0..<n])
             @ [After 5000000000])
      \<and> (fst (update w (cs n)) = Panic \<longrightarrow>
            pollLoop w (replicate n TimerFired @ TimerFired # rest) c =
              (LoopPanicked, fst (snd (update w (cs n))),
               concat (map (\<lambda>i. After 5000000000 # update_events w (cs i)) [0..<n])
                 @ After 5000000000 # update_events w (cs n))))"
proof (intro conjI impI)
  let ?ts = "timers (snd (snd (pollLoop w sel c)))"
  have "set ?ts \<subseteq> {5000000000}" and len: "length ?ts \<le> Suc (length sel)"
    using pollLoop_timers [of w sel c] by (simp_all add: Second_def)
  then have "replicate (length ?ts) 5000000000 = ?ts"
    by (intro replicate_length_same) auto
  with len show "\<exists>k \<le> Suc (length sel). ?ts = replicate k 5000000000"
    by metis
next
  assume "ctx c = Live"
  then show "\<exists>tail. snd (snd (pollLoop w (TimerFired # rest) c)) =
           After 5000000000 # update_events w c @ tail"
    using pollLoop_wait_then_update [of c w rest] by (simp add: Second_def)
next
  show "pollLoop w sel (c\<lparr>pollInterval := p\<rparr>) =
        (case pollLoop w sel c of (status, c', evs) \<Rightarrow> (status, c'\<lparr>pollInterval := p\<rparr>, evs))"
    by (rule pollLoop_pollInterval)
next
  assume "NewClient w rnd rerr name upd v prods p1 = Returns (Some c1, None)"
  then show "NewClient w rnd rerr name upd v prods p2 = Returns (Some (c1\<lparr>pollInterval := p2\<rparr>), None)"
    by (auto simp: NewClient_def newClient_def Let_def
        split: prod.splits option.splits outcome.splits)
next
  assume "ctx c = Cancelled"
  then show "pollLoop w sel c = (LoopReturned, c, [After 5000000000])"
    using pollLoop_cancelled [of c w sel] by (simp add: Second_def)
next
  assume a: "ctx c = Live \<and> cs 0 = c
        \<and> (\<forall>i < n. \<exists>r. fst (update w (cs i)) = Returns r
                \<and> cs (Suc i) = (fst (snd (update w (cs i))))\<lparr>lastUpdateError := r\<rparr>)"
  then have live: "ctx (cs n) = Live"
    and run: "pollLoop w (replicate n TimerFired @ sel') c =
        (case pollLoop w sel' (cs n) of
           (status, c', evs) \<Rightarrow>
             (status, c',
              concat (map (\<lambda>i. After (Second * 5) # update_events w (cs i)) [0..<n]) @ evs))"
    for sel'
    using pollLoop_iterations [of c cs n w] by simp_all
  show "pollLoop w (replicate n TimerFired @ CtxDone # rest) c =
          (LoopReturned, (cs n)\<lparr>ctx := Cancelled\<rparr>,
           concat (map (\<lambda>i. After 5000000000 # update_events w (cs i)) [0..<n])
             @ [After 5000000000])"
    unfolding run [of "CtxDone # rest"] using live by (simp add: Second_def)
  show "pollLoop w (replicate n TimerFired) c =
          (LoopWaiting, cs n,
           concat (map (\<lambda>i. After 5000000000 # update_events w (cs i)) [0..<n])
             @ [After 5000000000])"
    using run [of "[]"] live by (simp add: Second_def)
  {
    assume panic: "fst (update w (cs n)) = Panic"
    obtain x c' evs where u: "update w (cs n) = (x, c', evs)"
      by (cases "update w (cs n)")
    with panic have x: "x = Panic" and c': "fst (snd (update w (cs n))) = c'"
      and evs: "update_events w (cs n) = evs"
      by (simp_all add: update_events_def)
    show "pollLoop w (replicate n TimerFired @ TimerFired # rest) c =
              (LoopPanicked, fst (snd (update w (cs n))),
               concat (map (\<lambda>i. After 5000000000 # update_events w (cs i)) [0..<n])
                 @ After 5000000000 # update_events w (cs n))"
      unfolding run [of "TimerFired # rest"] c' evs using live u x by (simp add: Second_def)
  }
qed

theorem pollLoop_fixed_wait_witness:
  "timers (snd (snd (pollLoop demo_world [TimerFired, TimerFired, TimerFired]
      ((demo_client 4 [])\<lparr>lastUpdateError := None\<rparr>)))) =
     [5000000000, 5000000000, 5000000000, 5000000000]
   \<and> pollInterval (demo_client 4 []) = 7000000000
   \<and> fst (pollLoop demo_world [TimerFired, TimerFired, TimerFired]
        ((demo_client 4 [])\<lparr>lastUpdateError := None\<rparr>)) = LoopWaiting
   \<and> pollLoop demo_world [TimerFired] (Close (demo_client 4 [])) =
        (LoopReturned, Close (demo_client 4 []), [After 5000000000])
   \<and> (\<exists>tail. snd (snd (pollLoop demo_world [TimerFired] (demo_client 4 []))) =
         After 5000000000 # update_events demo_world (demo_client 4 []) @ tail)
   \<and> (\<exists>c1 :: (nat, nat, (ClientGetConfigsResponse option \<times> string option) list, string) Client.
         NewClient demo_world [] None ''operator'' [] ''7.50.0'' [''DEBUG''] 7000000000
           = Returns (Some c1, None)
       \<and> NewClient demo_world [] None ''operator'' [] ''7.50.0'' [''DEBUG''] 60000000000
           = Returns (Some (c1\<lparr>pollInterval := 60000000000\<rparr>), None))
   \<and> pollLoop demo_world [TimerFired, TimerFired, CtxDone, TimerFired]
        ((demo_client 4 [])\<lparr>lastUpdateError := None\<rparr>) =
        (LoopReturned,
         (demo_client 4 [])\<lparr>lastUpdateError := Some ''unavailable'', ctx := Cancelled\<rparr>,
         [After 5000000000, After 5000000000, After 5000000000])
   \<and> pollLoop demo_world [TimerFired, TimerFired]
        ((demo_client 4 [])\<lparr>lastUpdateError := None\<rparr>) =
        (LoopWaiting, (demo_client 4 [])\<lparr>lastUpdateError := Some ''unavailable''\<rparr>,
         [After 5000000000, After 5000000000, After 5000000000])"
proof -
  let ?c = "(demo_client 4 [])\<lparr>lastUpdateError := None\<rparr>"
  let ?sel = "[TimerFired, TimerFired, TimerFired]"
  let ?cs = "\<lambda>i :: nat. (demo_client 4 [])\<lparr>lastUpdateError :=
      (if i = 0 then None else Some ''unavailable'')\<rparr>"
  have start: "ctx ?c = Live \<and> ?cs 0 = ?c"
    by (simp add: demo_client_def)
  have quiet: "update_events demo_world (?cs i) = []" for i
    by (simp add: update_events_def demo_update_unavailable)
  have iter: "\<forall>i < Suc (Suc 0). \<exists>r. fst (update demo_world (?cs i)) = Returns r
      \<and> ?cs (Suc i) = (fst (snd (update demo_world (?cs i))))\<lparr>lastUpdateError := r\<rparr>"
    by (simp add: demo_update_unavailable)
  have whole: "pollLoop demo_world (replicate (Suc (Suc 0)) TimerFired @ CtxDone # [TimerFired]) ?c =
          (LoopReturned, (?cs (Suc (Suc 0)))\<lparr>ctx := Cancelled\<rparr>,
           concat (map (\<lambda>i. After 5000000000 # update_events demo_world (?cs i)) [0..<Suc (Suc 0)])
             @ [After 5000000000])
      \<and> pollLoop demo_world (replicate (Suc (Suc 0)) TimerFired) ?c =
          (LoopWaiting, ?cs (Suc (Suc 0)),
           concat (map (\<lambda>i. After 5000000000 # update_events demo_world (?cs i)) [0..<Suc (Suc 0)])
             @ [After 5000000000])"
    using pollLoop_fixed_wait [where w = demo_world and c = ?c and cs = ?cs
        and n = "Suc (Suc 0)" and rest = "[TimerFired]"] start iter
    by blast
  have cancelled_later: "pollLoop demo_world [TimerFired, TimerFired, CtxDone, TimerFired] ?c =
        (LoopReturned,
         (demo_client 4 [])\<lparr>lastUpdateError := Some ''unavailable'', ctx := Cancelled\<rparr>,
         [After 5000000000, After 5000000000, After 5000000000])"
    using whole [THEN conjunct1] by (simp add: quiet)
  have waiting: "pollLoop demo_world [TimerFired, TimerFired] ?c =
        (LoopWaiting, (demo_client 4 [])\<lparr>lastUpdateError := Some ''unavailable''\<rparr>,
         [After 5000000000, After 5000000000, After 5000000000])"
    using whole [THEN conjunct2] by (simp add: quiet)
  obtain c1 :: "(nat, nat, (ClientGetConfigsResponse option \<times> string option) list, string) Client"
    where built: "NewClient demo_world [] None ''operator'' [] ''7.50.0'' [''DEBUG''] 7000000000
        = Returns (Some c1, None)"
    using demo_NewClient by blast
  have rebuilt: "NewClient demo_world [] None ''operator'' [] ''7.50.0'' [''DEBUG''] 60000000000
        = Returns (Some (c1\<lparr>pollInterval := 60000000000\<rparr>), None)"
    using pollLoop_fixed_wait [where w = demo_world and rnd = "[]" and rerr = None
        and name = "''operator''" and upd = "[]" and v = "''7.50.0''" and prods = "[''DEBUG'']"
        and ?p1.0 = 7000000000 and ?p2.0 = 60000000000 and ?c1.0 = c1] built
    by blast
  have "ctx (demo_client 4 []) = Live"
    by (simp add: demo_client_def)
  then have waited: "\<exists>tail. snd (snd (pollLoop demo_world [TimerFired] (demo_client 4 []))) =
         After 5000000000 # update_events demo_world (demo_client 4 []) @ tail"
    using pollLoop_fixed_wait [where w = demo_world and c = "demo_client 4 []" and rest = "[]"]
    by blast
  have live: "ctx ((demo_client 4 [])\<lparr>lastUpdateError := e\<rparr>) = Live" for e
    by (simp add: demo_client_def)
  have run: "pollLoop demo_world ?sel ?c =
      (LoopWaiting, (demo_client 4 [])\<lparr>lastUpdateError := Some ''unavailable''\<rparr>,
       [After (Second * 5), After (Second * 5), After (Second * 5), After (Second * 5)])"
    by (simp add: demo_update_unavailable live)
  obtain k where k: "timers (snd (snd (pollLoop demo_world ?sel ?c))) = replicate k 5000000000"
    using pollLoop_fixed_wait [where w = demo_world and sel = ?sel and c = ?c] by blast
  have "length (timers (snd (snd (pollLoop demo_world ?sel ?c)))) = 4"
    unfolding run by simp
  with k have "k = 4"
    by simp
  with k have "timers (snd (snd (pollLoop demo_world ?sel ?c))) =
      [5000000000, 5000000000, 5000000000, 5000000000]"
    by (simp add: numeral_eq_Suc)
  moreover have "pollInterval (demo_client 4 []) = 7000000000"
    by (simp add: demo_client_def Second_def)
  moreover have "fst (pollLoop demo_world ?sel ?c) = LoopWaiting"
    unfolding run by simp
  moreover have "ctx (Close (demo_client 4 [])) = Cancelled"
    by (simp add: Close_def)
  then have "pollLoop demo_world [TimerFired] (Close (demo_client 4 [])) =
      (LoopReturned, Close (demo_client 4 []), [After 5000000000])"
    using pollLoop_fixed_wait [where w = demo_world and sel = "[TimerFired]"
        and c = "Close (demo_client 4 [])"] by blast
  ultimately show ?thesis
    using built rebuilt waited cancelled_later waiting by blast
qed

section \<open>The listener list and the mutex\<close>

lemma discipline_append:
  "discipline held (xs @ ys) =
     (case discipline held xs of None \<Rightarrow> None | Some held' \<Rightarrow> discipline held' ys)"
  by (induction held xs rule: discipline.induct) simp_all

lemma discipline_Invoke_map:
  "discipline True (map (\<lambda>l. Invoke l d) ls @ es) = discipline True es"
  by (induction ls) simp_all

lemma discipline_notifyListeners:
  "discipline False (notifyListeners w c changed) = Some False"
  by (simp add: notifyListeners_def discipline_Invoke_map)

lemma update_events_cases:
  "update_events w c = [] \<or> (\<exists>c' changed. update_events w c = notifyListeners w c' changed)"
  by (auto simp: update_events_def update_def split: prod.splits option.splits)

lemma discipline_update: "discipline False (update_events w c) = Some False"
  using update_events_cases [of w c] by (auto simp: discipline_notifyListeners)

lemma discipline_RegisterDebug: "discipline False (snd (RegisterDebug w c fn)) = Some False"
  by (simp add: RegisterDebug_def)

lemma discipline_step: "discipline False (step_events w x) = Some False"
  by (cases x) (simp_all add: discipline_update discipline_RegisterDebug Start_def startFn_def)

lemma discipline_goroutine: "discipline False (goroutine_events w steps) = Some False"
  by (induction steps) (simp_all add: goroutine_events_def discipline_append discipline_step)

lemma discipline_prefix:
  assumes "prefix p tr" and "discipline held tr \<noteq> None"
  shows "discipline held p \<noteq> None"
proof -
  from assms(1) obtain s where "tr = p @ s"
    by (auto simp: prefix_def)
  with assms(2) show ?thesis
    by (auto simp: discipline_append split: option.splits)
qed

lemma own_events_Cons:
  "own_events t ((t', e) # r) = (if t' = t then e # own_events t r else own_events t r)"
  by (simp add: own_events_def)

text \<open>
  The mutex makes disciplined goroutines exclusive: \<open>holder\<close> is the goroutine holding
  the mutex when the run starts.
\<close>

lemma disciplined_run_exclusive:
  assumes "mutex_ok holder r"
    and "\<And>t. discipline (holder = Some t) (own_events t r) \<noteq> None"
  shows "exclusive holder r"
  using assms
proof (induction r arbitrary: holder)
  case Nil
  then show ?case by simp
next
  case (Cons x r)
  obtain t e where x: "x = (t, e)"
    by (cases x)
  have own: "discipline (holder = Some t) (e # own_events t r) \<noteq> None"
    using Cons.prems(2) [of t] by (simp add: x own_events_Cons)
  have others: "discipline (holder = Some t') (own_events t' r) \<noteq> None" if "t' \<noteq> t" for t'
    using Cons.prems(2) [of t'] that by (simp add: x own_events_Cons)
  show ?case
  proof (cases e)
    case MutexLock
    from Cons.prems(1) have free: "holder = None" and ok: "mutex_ok (Some t) r"
      by (simp_all add: x MutexLock)
    have "discipline (Some t = Some t') (own_events t' r) \<noteq> None" for t'
    proof (cases "t' = t")
      case True
      with own free show ?thesis by (simp add: MutexLock)
    next
      case False
      with others [of t'] free show ?thesis by auto
    qed
    from Cons.IH [OF ok this] show ?thesis
      by (simp add: x MutexLock)
  next
    case MutexUnlock
    from Cons.prems(1) have ok: "mutex_ok None r"
      by (simp add: x MutexUnlock)
    from own have mine: "holder = Some t" and after: "discipline False (own_events t r) \<noteq> None"
      by (simp_all add: MutexUnlock split: if_splits)
    have "discipline (None = Some t') (own_events t' r) \<noteq> None" for t'
    proof (cases "t' = t")
      case True
      with after show ?thesis by simp
    next
      case False
      with others [of t'] mine show ?thesis by auto
    qed
    from Cons.IH [OF ok this] show ?thesis
      by (simp add: x MutexUnlock)
  next
    case ListenersRead
    from Cons.prems(1) have ok: "mutex_ok holder r"
      by (simp add: x ListenersRead)
    from own have mine: "holder = Some t" and after: "discipline (holder = Some t) (own_events t r) \<noteq> None"
      by (simp_all add: ListenersRead split: if_splits)
    have "discipline (holder = Some t') (own_events t' r) \<noteq> None" for t'
      using after others [of t'] by (cases "t' = t") simp_all
    from Cons.IH [OF ok this] mine show ?thesis
      by (simp add: x ListenersRead)
  next
    case ListenersWrite
    from Cons.prems(1) have ok: "mutex_ok holder r"
      by (simp add: x ListenersWrite)
    from own have mine: "holder = Some t" and after: "discipline (holder = Some t) (own_events t r) \<noteq> None"
      by (simp_all add: ListenersWrite split: if_splits)
    have "discipline (holder = Some t') (own_events t' r) \<noteq> None" for t'
      using after others [of t'] by (cases "t' = t") simp_all
    from Cons.IH [OF ok this] mine show ?thesis
      by (simp add: x ListenersWrite)
  next
    case (Invoke l d)
    from Cons.prems(1) have ok: "mutex_ok holder r"
      by (simp add: x Invoke)
    from own have mine: "holder = Some t" and after: "discipline (holder = Some t) (own_events t r) \<noteq> None"
      by (simp_all add: Invoke split: if_splits)
    have "discipline (holder = Some t') (own_events t' r) \<noteq> None" for t'
      using after others [of t'] by (cases "t' = t") simp_all
    from Cons.IH [OF ok this] mine show ?thesis
      by (simp add: x Invoke)
  next
    case Go_pollLoop
    from Cons.prems(1) have ok: "mutex_ok holder r"
      by (simp add: x Go_pollLoop)
    from own have after: "discipline (holder = Some t) (own_events t r) \<noteq> None"
      by (simp add: Go_pollLoop)
    have "discipline (holder = Some t') (own_events t' r) \<noteq> None" for t'
      using after others [of t'] by (cases "t' = t") simp_all
    from Cons.IH [OF ok this] show ?thesis
      by (simp add: x Go_pollLoop)
  next
    case (After d)
    from Cons.prems(1) have ok: "mutex_ok holder r"
      by (simp add: x After)
    from own have after: "discipline (holder = Some t) (own_events t r) \<noteq> None"
      by (simp add: After)
    have "discipline (holder = Some t') (own_events t' r) \<noteq> None" for t'
      using after others [of t'] by (cases "t' = t") simp_all
    from Cons.IH [OF ok this] show ?thesis
      by (simp add: x After)
  qed
qed

lemma holder_after_Cons: "holder_after h (x # r) = holder_after (next_holder h x) r"
  by (simp add: holder_after_def)

lemma holder_after_snoc: "holder_after h (r @ [x]) = next_holder (holder_after h r) x"
  by (simp add: holder_after_def)

lemma exclusive_holder:
  assumes "exclusive h r" and "n < length r" and "needs_mutex (snd (r ! n))"
  shows "holder_after h (take n r) = Some (fst (r ! n))"
  using assms
proof (induction r arbitrary: h n)
  case Nil
  then show ?case by simp
next
  case (Cons x r)
  obtain t e where x: "x = (t, e)"
    by (cases x)
  show ?case
  proof (cases n)
    case 0
    with Cons.prems show ?thesis
      by (cases e) (simp_all add: x holder_after_def)
  next
    case (Suc m)
    from Cons.prems(1) have "exclusive (next_holder h x) r"
      by (cases e) (auto simp: x)
    from Cons.IH [OF this, of m] Cons.prems(2,3) Suc show ?thesis
      by (simp add: holder_after_Cons)
  qed
qed

lemma holder_changes_by_Lock:
  assumes "holder_after h (take j r) = Some t"
    and "holder_after h (take i r) \<noteq> Some t"
    and "i \<le> j" and "j \<le> length r"
  shows "\<exists>k. i \<le> k \<and> k < j \<and> r ! k = (t, MutexLock)"
  using assms
proof (induction j)
  case 0
  then show ?case by simp
next
  case (Suc j)
  show ?case
  proof (cases "i = Suc j")
    case True
    with Suc.prems show ?thesis by simp
  next
    case False
    with Suc.prems have ij: "i \<le> j" and jr: "j < length r"
      by simp_all
    obtain t' e where rj: "r ! j = (t', e)"
      by (cases "r ! j")
    have step: "next_holder (holder_after h (take j r)) (t', e) = Some t"
      using Suc.prems(1) jr rj by (simp add: take_Suc_conv_app_nth holder_after_snoc)
    show ?thesis
    proof (cases "e = MutexLock")
      case True
      with step have "t' = t" by simp
      with True rj ij show ?thesis by auto
    next
      case False
      with step have "holder_after h (take j r) = Some t"
        by (cases e) simp_all
      from Suc.IH [OF this Suc.prems(2) ij] jr obtain k
        where "i \<le> k" and "k < j" and "r ! k = (t, MutexLock)"
        by auto
      then show ?thesis
        by (intro exI [of _ k]) simp
    qed
  qed
qed

lemma exclusive_no_race:
  assumes ex: "exclusive None r"
    and ij: "i < j" "j < length r"
    and acc: "needs_mutex (snd (r ! i))" "needs_mutex (snd (r ! j))"
    and diff: "fst (r ! i) \<noteq> fst (r ! j)"
  shows "\<exists>k. i < k \<and> k < j \<and> r ! k = (fst (r ! j), MutexLock)"
proof -
  have hi: "holder_after None (take i r) = Some (fst (r ! i))"
    using exclusive_holder [OF ex _ acc(1)] ij by simp
  have hj: "holder_after None (take j r) = Some (fst (r ! j))"
    using exclusive_holder [OF ex ij(2) acc(2)] .
  from hi diff have "holder_after None (take i r) \<noteq> Some (fst (r ! j))"
    by simp
  from holder_changes_by_Lock [OF hj this] ij obtain k
    where k: "i \<le> k" "k < j" "r ! k = (fst (r ! j), MutexLock)"
    by auto
  have "k \<noteq> i"
    using k(3) acc(1) by auto
  with k show ?thesis
    by (intro exI [of _ k]) simp
qed

lemma update_events_applied:
  assumes "newUpdateRequest w c = (req, None)"
    and "updater_ClientGetConfigs w (updater c) (ctx c) req = ((Some response, None), u)"
    and "rsp_TargetFiles response = Some files"
    and "applyUpdate w (c\<lparr>updater := u\<rparr>) response = ((changed, None), s)"
    and "changed \<noteq> []"
  shows "update_events w c =
           MutexLock #
           (if state_ProductDebug w \<in> set changed
            then ListenersRead # ListenersRead #
                 map (\<lambda>listener. Invoke listener (state_DebugConfigs w s)) (debugListeners c)
            else []) @
           [MutexUnlock]"
  unfolding update_events_def update_applied [OF assms(1-4)]
  using assms(5) by (simp add: notifyListeners_def containsProduct_set)

text \<open>
  Claim C6. The listener list is touched by \<^verbatim>\<open>newClient\<close> (which sets it before anyone else
  has the client), by \<^verbatim>\<open>RegisterDebug\<close> and by \<^verbatim>\<open>update\<close>, and nowhere else.
  \<^item> \<^verbatim>\<open>RegisterDebug\<close> takes the mutex, appends the new listener to the list (nothing else
    of the client changes), calls it with the repository's current \<^verbatim>\<open>DebugConfigs\<close> and
    then releases the mutex: these are all its events, in this order.
  \<^item> When \<^verbatim>\<open>update\<close> has applied a response with changed products, it takes the mutex,
    reads the list and calls every listener (if the Debug product changed) and then
    releases the mutex: these are all its events, in this order.
  \<^item> In both, every access to the list and every call of a listener lies between the
    \<^verbatim>\<open>Lock\<close> and the \<^verbatim>\<open>Unlock\<close> of the call, and the call ends with the mutex released;
    this holds of \<^verbatim>\<open>update\<close> on every path.
  \<^item> So in every run of any number of goroutines that use the client (each a sequence
    of \<^verbatim>\<open>update\<close>, \<^verbatim>\<open>RegisterDebug\<close>, \<^verbatim>\<open>Start\<close> calls and poll-loop \<^verbatim>\<open>select\<close>s, possibly
    cut off in the middle of a call) under the semantics of \<^verbatim>\<open>sync.Mutex\<close>: whenever a
    goroutine reads or writes the list or calls a listener, it is the holder of the
    mutex; and two such events of different goroutines never race: between them the
    later goroutine acquires the mutex.
\<close>

theorem listeners_accessed_under_mutex:
  "RegisterDebug w c fn =
     (c\<lparr>debugListeners := debugListeners c @ [fn]\<rparr>,
      [MutexLock, ListenersRead, ListenersWrite,
       Invoke fn (state_DebugConfigs w (state c)), MutexUnlock])
   \<and> discipline False (snd (RegisterDebug w c fn)) = Some False
   \<and> (newUpdateRequest w c = (req, None)
        \<and> updater_ClientGetConfigs w (updater c) (ctx c) req = ((Some response, None), u)
        \<and> rsp_TargetFiles response = Some files
        \<and> applyUpdate w (c\<lparr>updater := u\<rparr>) response = ((changed, None), s)
        \<and> changed \<noteq> []
      \<longrightarrow>
        update_events w c =
          MutexLock #
          (if state_ProductDebug w \<in> set changed
           then ListenersRead # ListenersRead #
                map (\<lambda>listener. Invoke listener (state_DebugConfigs w s)) (debugListeners c)
           else []) @
          [MutexUnlock])
   \<and> discipline False (update_events w c) = Some False
   \<and> (mutex_ok None r \<and> (\<forall>t. prefix (own_events t r) (goroutine_events w (prog t)))
      \<longrightarrow>
        exclusive None r
      \<and> (\<forall>i j. i < j \<and> j < length r
              \<and> needs_mutex (snd (r ! i)) \<and> needs_mutex (snd (r ! j))
              \<and> fst (r ! i) \<noteq> fst (r ! j)
            \<longrightarrow> (\<exists>k. i < k \<and> k < j \<and> r ! k = (fst (r ! j), MutexLock))))"
proof (intro conjI impI)
  show "RegisterDebug w c fn =
     (c\<lparr>debugListeners := debugListeners c @ [fn]\<rparr>,
      [MutexLock, ListenersRead, ListenersWrite,
       Invoke fn (state_DebugConfigs w (state c)), MutexUnlock])"
    by (simp add: RegisterDebug_def)
next
  show "discipline False (snd (RegisterDebug w c fn)) = Some False"
    by (rule discipline_RegisterDebug)
next
  assume "newUpdateRequest w c = (req, None)
        \<and> updater_ClientGetConfigs w (updater c) (ctx c) req = ((Some response, None), u)
        \<and> rsp_TargetFiles response = Some files
        \<and> applyUpdate w (c\<lparr>updater := u\<rparr>) response = ((changed, None), s)
        \<and> changed \<noteq> []"
  then show "update_events w c =
          MutexLock #
          (if state_ProductDebug w \<in> set changed
           then ListenersRead # ListenersRead #
                map (\<lambda>listener. Invoke listener (state_DebugConfigs w s)) (debugListeners c)
           else []) @
          [MutexUnlock]"
    using update_events_applied [of w c req response u files changed s] by blast
next
  show "discipline False (update_events w c) = Some False"
    by (rule discipline_update)
next
  assume a: "mutex_ok None r \<and> (\<forall>t. prefix (own_events t r) (goroutine_events w (prog t)))"
  have "discipline (None = Some t) (own_events t r) \<noteq> None" for t
  proof -
    have "prefix (own_events t r) (goroutine_events w (prog t))"
      using a by simp
    moreover have "discipline False (goroutine_events w (prog t)) \<noteq> None"
      by (simp add: discipline_goroutine)
    ultimately have "discipline False (own_events t r) \<noteq> None"
      by (rule discipline_prefix)
    then show ?thesis by simp
  qed
  with a show ex: "exclusive None r"
    by (intro disciplined_run_exclusive) simp_all
  show "\<forall>i j. i < j \<and> j < length r
              \<and> needs_mutex (snd (r ! i)) \<and> needs_mutex (snd (r ! j))
              \<and> fst (r ! i) \<noteq> fst (r ! j)
            \<longrightarrow> (\<exists>k. i < k \<and> k < j \<and> r ! k = (fst (r ! j), MutexLock))"
    using exclusive_no_race [OF ex] by blast
qed

lemma demo_update_events:
  "update_events demo_world (demo_client 4 [(Some (demo_response [''DEBUG'']), None)]) =
     [MutexLock, ListenersRead, ListenersRead, Invoke 10 5, Invoke 20 5, MutexUnlock]"
proof -
  let ?c = "demo_client 4 [(Some (demo_response [''DEBUG'']), None)]"
  have 1: "newUpdateRequest demo_world ?c = (fst (newUpdateRequest demo_world ?c), None)"
    using demo_newUpdateRequest_ok [of 4] by (simp add: prod_eq_iff)
  have 2: "updater_ClientGetConfigs demo_world (updater ?c) (ctx ?c)
      (fst (newUpdateRequest demo_world ?c)) = ((Some (demo_response [''DEBUG'']), None), [])"
    by (simp add: demo_world_def demo_client_def)
  have 3: "rsp_TargetFiles (demo_response [''DEBUG'']) = Some [\<lparr>file_Path = ''a/b'', file_Raw = [0, 1]\<rparr>]"
    by (simp add: demo_response_def)
  have 4: "applyUpdate demo_world (?c\<lparr>updater := []\<rparr>) (demo_response [''DEBUG'']) =
      (([''DEBUG''], None), 5)"
    by (simp add: demo_applyUpdate)
  show ?thesis
    unfolding update_events_def update_applied [OF 1 2 3 4]
    by (simp add: notifyListeners_def demo_world_def demo_client_def)
qed

theorem listeners_accessed_under_mutex_witness:
  "exclusive None demo_run
   \<and> needs_mutex (snd (demo_run ! 4)) \<and> demo_run ! 4 = (1, Invoke 30 4)
   \<and> needs_mutex (snd (demo_run ! 7)) \<and> demo_run ! 7 = (0, ListenersRead)
   \<and> (\<exists>k. 4 < k \<and> k < 7 \<and> demo_run ! k = (0, MutexLock))
   \<and> debugListeners (fst (RegisterDebug demo_world (demo_client 4 []) 30)) = [10, 20, 30]
   \<and> snd (RegisterDebug demo_world (demo_client 4 []) 30) =
        [MutexLock, ListenersRead, ListenersWrite, Invoke 30 4, MutexUnlock]
   \<and> update_events demo_world (demo_client 4 [(Some (demo_response [''DEBUG'']), None)]) =
        [MutexLock, ListenersRead, ListenersRead, Invoke 10 5, Invoke 20 5, MutexUnlock]"
proof -
  note th = listeners_accessed_under_mutex [where r = demo_run and w = demo_world
      and prog = demo_prog and c = "demo_client 4 []" and fn = 30]
  let ?cu = "demo_client 4 [(Some (demo_response [''DEBUG'']), None)]"
  have u1: "newUpdateRequest demo_world ?cu = (fst (newUpdateRequest demo_world ?cu), None)"
    using demo_newUpdateRequest_ok [of 4] by (simp add: prod_eq_iff)
  have u2: "updater_ClientGetConfigs demo_world (updater ?cu) (ctx ?cu)
      (fst (newUpdateRequest demo_world ?cu)) = ((Some (demo_response [''DEBUG'']), None), [])"
    by (simp add: demo_world_def demo_client_def)
  have u3: "rsp_TargetFiles (demo_response [''DEBUG'']) = Some [\<lparr>file_Path = ''a/b'', file_Raw = [0, 1]\<rparr>]"
    by (simp add: demo_response_def)
  have u4: "applyUpdate demo_world (?cu\<lparr>updater := []\<rparr>) (demo_response [''DEBUG'']) =
      (([''DEBUG''], None), 5)"
    by (simp add: demo_applyUpdate)
  have u5: "[''DEBUG''] \<noteq> []"
    by simp
  have "update_events demo_world ?cu =
      MutexLock #
      (if state_ProductDebug demo_world \<in> set [''DEBUG'']
       then ListenersRead # ListenersRead #
            map (\<lambda>listener. Invoke listener (state_DebugConfigs demo_world 5)) (debugListeners ?cu)
       else []) @
      [MutexUnlock]"
    using listeners_accessed_under_mutex [where w = demo_world and c = ?cu
        and req = "fst (newUpdateRequest demo_world ?cu)" and response = "demo_response [''DEBUG'']"
        and u = "[]" and changed = "[''DEBUG'']" and s = 5] u1 u2 u3 u4 u5
    by blast
  then have upd_events: "update_events demo_world ?cu =
      [MutexLock, ListenersRead, ListenersRead, Invoke 10 5, Invoke 20 5, MutexUnlock]"
    by (simp add: demo_world_def demo_client_def)
  have reg: "RegisterDebug demo_world (demo_client 4 []) 30 =
     ((demo_client 4 [])\<lparr>debugListeners := debugListeners (demo_client 4 []) @ [30]\<rparr>,
      [MutexLock, ListenersRead, ListenersWrite,
       Invoke 30 (state_DebugConfigs demo_world (state (demo_client 4 []))), MutexUnlock])"
    using th by (rule conjunct1)
  have reg_list: "debugListeners (fst (RegisterDebug demo_world (demo_client 4 []) 30)) = [10, 20, 30]"
    unfolding reg by (simp add: demo_client_def)
  have reg_events: "snd (RegisterDebug demo_world (demo_client 4 []) 30) =
        [MutexLock, ListenersRead, ListenersWrite, Invoke 30 4, MutexUnlock]"
    unfolding reg by (simp add: demo_world_def demo_client_def)
  have ok: "mutex_ok None demo_run"
    by (simp add: demo_run_def)
  have pre: "prefix (own_events t demo_run) (goroutine_events demo_world (demo_prog t))" for t
  proof -
    consider "t = 0" | "t = 1" | "t \<noteq> 0 \<and> t \<noteq> 1"
      by blast
    then show ?thesis
    proof cases
      case 1
      then show ?thesis
        by (simp add: own_events_def demo_run_def goroutine_events_def demo_prog_def
            demo_update_events Second_def)
    next
      case 2
      then show ?thesis
        by (simp add: own_events_def demo_run_def goroutine_events_def demo_prog_def reg_events)
    next
      case 3
      then show ?thesis
        by (simp add: own_events_def demo_run_def)
    qed
  qed
  have facts: "4 < (7 :: nat) \<and> 7 < length demo_run
      \<and> needs_mutex (snd (demo_run ! 4)) \<and> needs_mutex (snd (demo_run ! 7))
      \<and> fst (demo_run ! 4) \<noteq> fst (demo_run ! 7)"
    by (simp add: demo_run_def)
  have who: "demo_run ! 4 = (1, Invoke 30 4) \<and> demo_run ! 7 = (0, ListenersRead)"
    by (simp add: demo_run_def)
  have all: "exclusive None demo_run
      \<and> (\<forall>i j. i < j \<and> j < length demo_run
              \<and> needs_mutex (snd (demo_run ! i)) \<and> needs_mutex (snd (demo_run ! j))
              \<and> fst (demo_run ! i) \<noteq> fst (demo_run ! j)
            \<longrightarrow> (\<exists>k. i < k \<and> k < j \<and> demo_run ! k = (fst (demo_run ! j), MutexLock)))"
  proof -
    have "mutex_ok None demo_run \<and> (\<forall>t. prefix (own_events t demo_run) (goroutine_events demo_world (demo_prog t)))"
      using ok pre by simp
    then show ?thesis
      by (rule th [THEN conjunct2, THEN conjunct2, THEN conjunct2, THEN conjunct2, rule_format])
  qed
  then have "\<forall>i j. i < j \<and> j < length demo_run
              \<and> needs_mutex (snd (demo_run ! i)) \<and> needs_mutex (snd (demo_run ! j))
              \<and> fst (demo_run ! i) \<noteq> fst (demo_run ! j)
            \<longrightarrow> (\<exists>k. i < k \<and> k < j \<and> demo_run ! k = (fst (demo_run ! j), MutexLock))"
    by (rule conjunct2)
  then have "4 < (7 :: nat) \<and> 7 < length demo_run
              \<and> needs_mutex (snd (demo_run ! 4)) \<and> needs_mutex (snd (demo_run ! 7))
              \<and> fst (demo_run ! 4) \<noteq> fst (demo_run ! 7)
            \<longrightarrow> (\<exists>k. 4 < k \<and> k < 7 \<and> demo_run ! k = (fst (demo_run ! 7), MutexLock))"
    by (elim allE [of _ 4] allE [of _ 7])
  with facts have "\<exists>k. 4 < k \<and> k < 7 \<and> demo_run ! k = (fst (demo_run ! 7), MutexLock)"
    by (rule mp [rotated])
  then have "\<exists>k. 4 < k \<and> k < 7 \<and> demo_run ! k = (0, MutexLock)"
    using who by simp
  moreover have "exclusive None demo_run"
    using all by (rule conjunct1)
  ultimately show ?thesis
    using facts who reg_list reg_events upd_events by blast
qed

section \<open>Properties of \<^verbatim>\<open>ProfilesToApply\<close>\<close>

lemma profileMatchesNode_None:
  "profileMatchesNode k p n = (b, None) \<Longrightarrow> b = matches k p n"
  by (cases b) (auto simp: matches_def)

lemma conflict_iff:
  "conflict k nodes q p \<longleftrightarrow>
     (\<exists>n \<in> set nodes. \<exists>n' \<in> set nodes.
        node_Name n' = node_Name n \<and> matches k q n' \<and> matches k p n)"
  by (auto simp: conflict_def list_ex_iff)

lemma nodes_scan:
  assumes "ProfilesToApply_nodes k applied p ns m0 = Inr (c, m)"
  shows "(c \<longrightarrow> (\<exists>n \<in> set ns. matches k p n \<and> map_index applied (node_Name n)))
       \<and> (\<not> c \<longrightarrow>
            (\<forall>n \<in> set ns. matches k p n \<longrightarrow> \<not> map_index applied (node_Name n))
          \<and> (\<forall>name. m name \<noteq> None \<longleftrightarrow>
                m0 name \<noteq> None \<or> (\<exists>n \<in> set ns. node_Name n = name \<and> matches k p n)))"
  using assms
proof (induction ns arbitrary: m0)
  case Nil
  then show ?case by simp
next
  case (Cons node rest)
  obtain b e where pm: "profileMatchesNode k p node = (b, e)"
    by (cases "profileMatchesNode k p node")
  with Cons.prems have e: "e = None"
    by (cases e) simp_all
  with pm have b: "b = matches k p node"
    by (simp add: profileMatchesNode_None)
  show ?case
  proof (cases "matches k p node")
    case False
    with Cons.prems pm e b
    have "ProfilesToApply_nodes k applied p rest m0 = Inr (c, m)"
      by simp
    from Cons.IH [OF this] False show ?thesis
      by auto
  next
    case True
    note m = this
    show ?thesis
    proof (cases "map_index applied (node_Name node)")
      case True
      with Cons.prems pm e b m have "c" by simp
      with True m show ?thesis by auto
    next
      case False
      with Cons.prems pm e b m
      have "ProfilesToApply_nodes k applied p rest (m0(node_Name node \<mapsto> True)) = Inr (c, m)"
        by simp
      from Cons.IH [OF this] False m show ?thesis
        by (auto split: if_splits)
    qed
  qed
qed

lemma kept_Cons: "kept (x # xs) (f # fs) = (if f then x # kept xs fs else kept xs fs)"
  by (simp add: kept_def)

lemma kept_Nil: "kept [] fs = []"
  by (simp add: kept_def)

text \<open>
  The outer loop: \<open>applied\<close> marks exactly the names of the nodes that a profile of
  \<open>res\<close> matches, and the profiles of \<open>res\<close> do not conflict with each other.
\<close>

lemma profiles_scan:
  assumes "ProfilesToApply_profiles k nodes rest applied res = Inr out"
    and "\<And>name. map_index applied name \<longleftrightarrow>
           (\<exists>q \<in> set res. \<exists>n' \<in> set nodes. node_Name n' = name \<and> matches k q n')"
    and "sorted_wrt (\<lambda>q p. \<not> conflict k nodes q p) res"
  shows "\<exists>flags. length flags = length rest \<and> out = res @ kept rest flags
           \<and> sorted_wrt (\<lambda>q p. \<not> conflict k nodes q p) out
           \<and> (\<forall>j < length rest. flags ! j \<longleftrightarrow>
                \<not> (\<exists>q \<in> set (res @ kept (take j rest) (take j flags)).
                      conflict k nodes q (rest ! j)))"
  using assms
proof (induction rest arbitrary: applied res)
  case Nil
  then show ?case by (simp add: kept_Nil)
next
  case (Cons p rest)
  obtain c m where scan: "ProfilesToApply_nodes k applied p nodes Map.empty = Inr (c, m)"
    using Cons.prems(1)
    by (cases "ProfilesToApply_nodes k applied p nodes Map.empty") auto
  have marked: "(\<exists>n \<in> set nodes. matches k p n \<and> map_index applied (node_Name n)) \<longleftrightarrow>
      (\<exists>q \<in> set res. conflict k nodes q p)"
    unfolding conflict_iff Cons.prems(2) by blast
  show ?case
  proof (cases c)
    case True
    with Cons.prems(1) scan
    have run: "ProfilesToApply_profiles k nodes rest applied res = Inr out"
      by simp
    from Cons.IH [OF run Cons.prems(2) Cons.prems(3)] obtain flags
      where fl: "length flags = length rest" "out = res @ kept rest flags"
        "sorted_wrt (\<lambda>q p. \<not> conflict k nodes q p) out"
        "\<forall>j < length rest. flags ! j \<longleftrightarrow>
            \<not> (\<exists>q \<in> set (res @ kept (take j rest) (take j flags)). conflict k nodes q (rest ! j))"
      by blast
    have dropped: "\<exists>q \<in> set res. conflict k nodes q p"
      using nodes_scan [OF scan] True marked by simp
    have "\<forall>j < length (p # rest). (False # flags) ! j \<longleftrightarrow>
        \<not> (\<exists>q \<in> set (res @ kept (take j (p # rest)) (take j (False # flags))).
              conflict k nodes q ((p # rest) ! j))"
    proof (intro allI impI)
      fix j assume "j < length (p # rest)"
      then show "(False # flags) ! j \<longleftrightarrow>
        \<not> (\<exists>q \<in> set (res @ kept (take j (p # rest)) (take j (False # flags))).
              conflict k nodes q ((p # rest) ! j))"
        using fl(4) dropped by (cases j) (simp_all add: kept_Nil kept_Cons)
    qed
    with fl(1,2,3) show ?thesis
      by (intro exI [of _ "False # flags"]) (simp add: kept_Cons)
  next
    case False
    let ?applied = "\<lambda>node. case m node of Some b \<Rightarrow> Some True | None \<Rightarrow> applied node"
    from False Cons.prems(1) scan
    have run: "ProfilesToApply_profiles k nodes rest ?applied (res @ [p]) = Inr out"
      by simp
    from nodes_scan [OF scan] False
    have free: "\<forall>n \<in> set nodes. matches k p n \<longrightarrow> \<not> map_index applied (node_Name n)"
      and dom: "\<And>name. m name \<noteq> None \<longleftrightarrow> (\<exists>n \<in> set nodes. node_Name n = name \<and> matches k p n)"
      by simp_all
    have kept_free: "\<not> (\<exists>q \<in> set res. conflict k nodes q p)"
      using free marked by blast
    have inv: "map_index ?applied name \<longleftrightarrow>
        (\<exists>q \<in> set (res @ [p]). \<exists>n' \<in> set nodes. node_Name n' = name \<and> matches k q n')" for name
    proof (cases "m name")
      case None
      then have "map_index ?applied name = map_index applied name"
        by (simp add: map_index_def)
      moreover from None dom [of name]
      have "\<not> (\<exists>n \<in> set nodes. node_Name n = name \<and> matches k p n)"
        by simp
      ultimately show ?thesis
        using Cons.prems(2) [of name] by auto
    next
      case (Some b)
      then have "map_index ?applied name"
        by (simp add: map_index_def)
      moreover from Some dom [of name]
      have "\<exists>n \<in> set nodes. node_Name n = name \<and> matches k p n"
        by simp
      ultimately show ?thesis
        by auto
    qed
    have srt: "sorted_wrt (\<lambda>q p. \<not> conflict k nodes q p) (res @ [p])"
      using Cons.prems(3) kept_free by (simp add: sorted_wrt_append)
    from Cons.IH [OF run inv srt] obtain flags
      where fl: "length flags = length rest" "out = (res @ [p]) @ kept rest flags"
        "sorted_wrt (\<lambda>q p. \<not> conflict k nodes q p) out"
        "\<forall>j < length rest. flags ! j \<longleftrightarrow>
            \<not> (\<exists>q \<in> set ((res @ [p]) @ kept (take j rest) (take j flags)).
                  conflict k nodes q (rest ! j))"
      by blast
    have "\<forall>j < length (p # rest). (True # flags) ! j \<longleftrightarrow>
        \<not> (\<exists>q \<in> set (res @ kept (take j (p # rest)) (take j (True # flags))).
              conflict k nodes q ((p # rest) ! j))"
    proof (intro allI impI)
      fix j assume "j < length (p # rest)"
      then show "(True # flags) ! j \<longleftrightarrow>
        \<not> (\<exists>q \<in> set (res @ kept (take j (p # rest)) (take j (True # flags))).
              conflict k nodes q ((p # rest) ! j))"
        using fl(4) kept_free by (cases j) (simp_all add: kept_Nil kept_Cons)
    qed
    with fl(1,2,3) show ?thesis
      by (intro exI [of _ "True # flags"]) (simp add: kept_Cons)
  qed
qed

lemma map_index_unmarked:
  "(\<And>name. \<not> map_index m0 name) \<Longrightarrow>
     \<not> map_index (foldl (\<lambda>m node. m(node_Name node \<mapsto> False)) m0 nodes) name"
proof (induction nodes arbitrary: m0)
  case Nil
  then show ?case by simp
next
  case (Cons node nodes)
  have "\<not> map_index (m0(node_Name node \<mapsto> False)) name'" for name'
    using Cons.prems [of name'] by (simp add: map_index_def)
  from Cons.IH [OF this] show ?case
    by simp
qed

lemma set_kept:
  "length flags = length xs \<Longrightarrow> set (kept xs flags) = {xs ! i | i. i < length xs \<and> flags ! i}"
  by (auto simp: kept_def set_zip image_iff) force

lemma kept_take_ex:
  assumes "length flags = length xs" and "j \<le> length xs"
  shows "(\<exists>q \<in> set (kept (take j xs) (take j flags)). P q) \<longleftrightarrow> (\<exists>i < j. flags ! i \<and> P (xs ! i))"
proof -
  have s: "set (kept (take j xs) (take j flags)) =
      {take j xs ! i | i. i < length (take j xs) \<and> take j flags ! i}"
    using assms by (intro set_kept) simp
  show ?thesis
  proof
    assume "\<exists>q \<in> set (kept (take j xs) (take j flags)). P q"
    then obtain i where "i < length (take j xs)" and "take j flags ! i" and "P (take j xs ! i)"
      unfolding s by blast
    then have "i < j \<and> flags ! i \<and> P (xs ! i)"
      by simp
    then show "\<exists>i < j. flags ! i \<and> P (xs ! i)"
      by blast
  next
    assume "\<exists>i < j. flags ! i \<and> P (xs ! i)"
    then obtain i where i: "i < j" "flags ! i" "P (xs ! i)"
      by blast
    then have "i < length (take j xs) \<and> take j flags ! i \<and> P (take j xs ! i)"
      using assms by simp
    then show "\<exists>q \<in> set (kept (take j xs) (take j flags)). P q"
      unfolding s by blast
  qed
qed

text \<open>The order of \<^verbatim>\<open>sortProfiles\<close>.\<close>

lemma not_profile_less:
  "\<not> profile_less b a \<longleftrightarrow>
     dap_CreationTimestamp a < dap_CreationTimestamp b
     \<or> (dap_CreationTimestamp a = dap_CreationTimestamp b \<and> dap_Name a \<le> dap_Name b)"
  by (auto simp: profile_less_def)

lemma mset_place_profile: "mset (place_profile p qs) = add_mset p (mset qs)"
  by (induction qs) simp_all

lemma set_place_profile: "set (place_profile p qs) = insert p (set qs)"
  by (induction qs) auto

lemma sorted_place_profile:
  "sorted_wrt (\<lambda>a b. \<not> profile_less b a) qs \<Longrightarrow>
     sorted_wrt (\<lambda>a b. \<not> profile_less b a) (place_profile p qs)"
proof (induction qs)
  case Nil
  then show ?case by simp
next
  case (Cons q qs)
  show ?case
  proof (cases "profile_less p q")
    case True
    then have "\<not> profile_less q p"
      by (auto simp: profile_less_def split: if_splits)
    moreover have "\<not> profile_less x p" if "x \<in> set qs" for x
    proof -
      from Cons.prems that have "\<not> profile_less x q" by simp
      with True show ?thesis
        by (auto simp: profile_less_def split: if_splits)
    qed
    ultimately show ?thesis
      using True Cons.prems by simp
  next
    case False
    then show ?thesis
      using Cons by (auto simp: set_place_profile)
  qed
qed

lemma sortProfiles_sorted: "sorted_profiles profiles (sortProfiles profiles)"
proof -
  have "mset (foldr place_profile ps []) = mset ps
      \<and> sorted_wrt (\<lambda>a b. \<not> profile_less b a) (foldr place_profile ps [])" for ps :: "'a DatadogAgentProfile list"
    by (induction ps) (simp_all add: mset_place_profile sorted_place_profile)
  then show ?thesis
    by (simp add: sorted_profiles_def sortProfiles_def)
qed

lemma ProfilesToApply_sorted_result:
  assumes "ProfilesToApply_sorted k sp nodes = (Some result, None)"
  shows "\<exists>res flags.
           result = res @ [defaultProfile res]
         \<and> length flags = length sp \<and> res = kept sp flags
         \<and> sorted_wrt (\<lambda>q p. \<not> conflict k nodes q p) res
         \<and> (\<forall>j < length sp. flags ! j \<longleftrightarrow>
              \<not> (\<exists>i < j. flags ! i \<and> conflict k nodes (sp ! i) (sp ! j)))"
proof -
  let ?applied = "foldl (\<lambda>m node. m(node_Name node \<mapsto> False)) Map.empty nodes"
  from assms obtain res
    where run: "ProfilesToApply_profiles k nodes sp ?applied [] = Inr res"
      and result: "result = res @ [defaultProfile res]"
    by (auto simp: ProfilesToApply_sorted_def split: sum.splits)
  have unmarked: "\<not> map_index ?applied name" for name
    by (rule map_index_unmarked) (simp add: map_index_def)
  have inv: "map_index ?applied name \<longleftrightarrow>
      (\<exists>q \<in> set []. \<exists>n' \<in> set nodes. node_Name n' = name \<and> matches k q n')" for name
    using unmarked [of name] by simp
  have "sorted_wrt (\<lambda>q p. \<not> conflict k nodes q p) []"
    by simp
  from profiles_scan [OF run inv this] obtain flags
    where fl: "length flags = length sp" "res = kept sp flags"
      "sorted_wrt (\<lambda>q p. \<not> conflict k nodes q p) res"
      "\<forall>j < length sp. flags ! j \<longleftrightarrow>
          \<not> (\<exists>q \<in> set (kept (take j sp) (take j flags)). conflict k nodes q (sp ! j))"
    by auto
  have "\<forall>j < length sp. flags ! j \<longleftrightarrow>
      \<not> (\<exists>i < j. flags ! i \<and> conflict k nodes (sp ! i) (sp ! j))"
  proof (intro allI impI)
    fix j assume j: "j < length sp"
    then have A: "(\<exists>q \<in> set (kept (take j sp) (take j flags)). conflict k nodes q (sp ! j)) \<longleftrightarrow>
        (\<exists>i < j. flags ! i \<and> conflict k nodes (sp ! i) (sp ! j))"
      using kept_take_ex [OF fl(1), of j "\<lambda>q. conflict k nodes q (sp ! j)"] by simp
    from fl(4) j have B: "flags ! j \<longleftrightarrow>
        \<not> (\<exists>q \<in> set (kept (take j sp) (take j flags)). conflict k nodes q (sp ! j))"
      by blast
    show "flags ! j \<longleftrightarrow>
        \<not> (\<exists>i < j. flags ! i \<and> conflict k nodes (sp ! i) (sp ! j))"
      unfolding B A ..
  qed
  with result fl(1,2,3) show ?thesis
    by blast
qed

lemma shared_node_conflict:
  "n \<in> set nodes \<Longrightarrow> matches k q n \<Longrightarrow> matches k p n \<Longrightarrow> conflict k nodes q p"
  unfolding conflict_iff by blast

text \<open>
  Claim C9. \<^verbatim>\<open>ProfilesToApply\<close> sorts the profiles and works on the sorted list; for
  every list \<open>sp\<close> that \<^verbatim>\<open>sort.Slice\<close> may produce (the same profiles, none less than one
  before it), when the call succeeds with \<open>result\<close>:
  \<^item> \<open>result\<close> is a list \<open>res\<close> of input profiles followed by the default profile built
    from \<open>res\<close>, whose name is \<^verbatim>\<open>"default"\<close>; so it is not empty and the default is last;
  \<^item> no node is matched by two profiles of \<open>res\<close>;
  \<^item> \<open>res\<close> is chosen greedily along the sorted order: the profile at position \<open>j\<close> of
    \<open>sp\<close> is returned exactly when no returned profile at an earlier position
    conflicts with it;
  \<^item> earlier in \<open>sp\<close> means an earlier creation timestamp or, at equal timestamps, a
    name that is not greater.
\<close>

theorem ProfilesToApply_conflict_free:
  "sorted_profiles profiles (sortProfiles profiles)
   \<and> ProfilesToApply k profiles nodes = ProfilesToApply_sorted k (sortProfiles profiles) nodes
   \<and> (sorted_profiles profiles sp \<and> ProfilesToApply_sorted k sp nodes = (Some result, None)
      \<longrightarrow>
        (\<exists>res flags.
            result = res @ [defaultProfile res]
          \<and> dap_Name (defaultProfile res) = ''default''
          \<and> length flags = length sp \<and> res = kept sp flags
          \<and> (\<forall>a b. a < b \<and> b < length res \<longrightarrow>
                \<not> (\<exists>n \<in> set nodes. matches k (res ! a) n \<and> matches k (res ! b) n))
          \<and> (\<forall>j < length sp. flags ! j \<longleftrightarrow>
                \<not> (\<exists>i < j. flags ! i \<and> conflict k nodes (sp ! i) (sp ! j))))
      \<and> (\<forall>i j. i < j \<and> j < length sp \<longrightarrow>
            dap_CreationTimestamp (sp ! i) < dap_CreationTimestamp (sp ! j)
          \<or> (dap_CreationTimestamp (sp ! i) = dap_CreationTimestamp (sp ! j)
              \<and> dap_Name (sp ! i) \<le> dap_Name (sp ! j))))"
proof (intro conjI impI)
  show "sorted_profiles profiles (sortProfiles profiles)"
    by (rule sortProfiles_sorted)
next
  show "ProfilesToApply k profiles nodes = ProfilesToApply_sorted k (sortProfiles profiles) nodes"
    by (simp add: ProfilesToApply_def)
next
  assume a: "sorted_profiles profiles sp \<and> ProfilesToApply_sorted k sp nodes = (Some result, None)"
  then obtain res flags
    where r: "result = res @ [defaultProfile res]"
      "length flags = length sp" "res = kept sp flags"
      "sorted_wrt (\<lambda>q p. \<not> conflict k nodes q p) res"
      "\<forall>j < length sp. flags ! j \<longleftrightarrow>
          \<not> (\<exists>i < j. flags ! i \<and> conflict k nodes (sp ! i) (sp ! j))"
    using ProfilesToApply_sorted_result [of k sp nodes result] by blast
  have name: "dap_Name (defaultProfile res) = ''default''"
    by (simp add: defaultProfile_def defaultProfileName_def Let_def)
  have free: "\<forall>a b. a < b \<and> b < length res \<longrightarrow>
      \<not> (\<exists>n \<in> set nodes. matches k (res ! a) n \<and> matches k (res ! b) n)"
  proof (intro allI impI)
    fix a b assume ab: "a < b \<and> b < length res"
    with r(4) have "\<not> conflict k nodes (res ! a) (res ! b)"
      by (simp add: sorted_wrt_iff_nth_less)
    then show "\<not> (\<exists>n \<in> set nodes. matches k (res ! a) n \<and> matches k (res ! b) n)"
      using shared_node_conflict [of _ nodes k "res ! a" "res ! b"] by blast
  qed
  from r(1,2,3,5) name free
  show "\<exists>res flags.
            result = res @ [defaultProfile res]
          \<and> dap_Name (defaultProfile res) = ''default''
          \<and> length flags = length sp \<and> res = kept sp flags
          \<and> (\<forall>a b. a < b \<and> b < length res \<longrightarrow>
                \<not> (\<exists>n \<in> set nodes. matches k (res ! a) n \<and> matches k (res ! b) n))
          \<and> (\<forall>j < length sp. flags ! j \<longleftrightarrow>
                \<not> (\<exists>i < j. flags ! i \<and> conflict k nodes (sp ! i) (sp ! j)))"
    by blast
  from a have "sorted_wrt (\<lambda>a b. \<not> profile_less b a) sp"
    by (simp add: sorted_profiles_def)
  then show "\<forall>i j. i < j \<and> j < length sp \<longrightarrow>
            dap_CreationTimestamp (sp ! i) < dap_CreationTimestamp (sp ! j)
          \<or> (dap_CreationTimestamp (sp ! i) = dap_CreationTimestamp (sp ! j)
              \<and> dap_Name (sp ! i) \<le> dap_Name (sp ! j))"
    by (simp add: sorted_wrt_iff_nth_less not_profile_less)
qed

lemma demo_sort: "sortProfiles [demo_big, demo_all, demo_linux] = [demo_linux, demo_all, demo_big]"
  by (simp add: sortProfiles_def profile_less_def demo_big_def demo_all_def demo_linux_def)

lemma demo_matches:
  "matches demo_labels demo_linux (demo_nodes ! 0)" "\<not> matches demo_labels demo_linux (demo_nodes ! 1)"
  "matches demo_labels demo_all (demo_nodes ! 0)" "matches demo_labels demo_all (demo_nodes ! 1)"
  "\<not> matches demo_labels demo_big (demo_nodes ! 0)" "matches demo_labels demo_big (demo_nodes ! 1)"
  by (simp_all add: matches_def profileMatchesNode_def demo_labels_def demo_nodes_def
      demo_linux_def demo_all_def demo_big_def)

lemma demo_apply:
  "ProfilesToApply_sorted demo_labels [demo_linux, demo_all, demo_big] demo_nodes =
     (Some [demo_linux, demo_big, defaultProfile [demo_linux, demo_big]], None)"
  by (simp add: ProfilesToApply_sorted_def profileMatchesNode_def map_index_def
      demo_labels_def demo_nodes_def demo_linux_def demo_all_def demo_big_def)

lemma demo_default:
  "defaultProfile [demo_linux, demo_big] =
     \<lparr>dap_Name = ''default'', dap_Namespace = [], dap_CreationTimestamp = 0,
      dap_ProfileAffinity = Some [
        \<lparr>nsr_Key = ''os'', nsr_Operator = NodeSelectorOpNotIn, nsr_Values = [''linux'']\<rparr>,
        \<lparr>nsr_Key = ''size'', nsr_Operator = NodeSelectorOpNotIn, nsr_Values = [''big'']\<rparr>],
      dap_Config = None\<rparr>"
  by (simp add: defaultProfile_def defaultProfileName_def demo_linux_def demo_big_def)

theorem ProfilesToApply_conflict_free_witness:
  "ProfilesToApply demo_labels [demo_big, demo_all, demo_linux] demo_nodes =
     (Some [demo_linux, demo_big, defaultProfile [demo_linux, demo_big]], None)
   \<and> \<not> (\<exists>n \<in> set demo_nodes. matches demo_labels demo_linux n \<and> matches demo_labels demo_big n)
   \<and> conflict demo_labels demo_nodes demo_linux demo_all"
proof -
  let ?ps = "[demo_big, demo_all, demo_linux]"
  let ?result = "[demo_linux, demo_big, defaultProfile [demo_linux, demo_big]]"
  note th = ProfilesToApply_conflict_free [where k = demo_labels and profiles = ?ps
      and nodes = demo_nodes and sp = "sortProfiles ?ps" and result = ?result]
  from th have srt: "sorted_profiles ?ps (sortProfiles ?ps)"
    by (rule conjunct1)
  from th have eq: "ProfilesToApply demo_labels ?ps demo_nodes =
      ProfilesToApply_sorted demo_labels (sortProfiles ?ps) demo_nodes"
    by (rule conjunct2 [THEN conjunct1])
  have run: "ProfilesToApply_sorted demo_labels (sortProfiles ?ps) demo_nodes = (Some ?result, None)"
    by (simp add: demo_sort demo_apply)
  from th srt run obtain res flags
    where res: "?result = res @ [defaultProfile res]"
      and free: "\<forall>a b. a < b \<and> b < length res \<longrightarrow>
          \<not> (\<exists>n \<in> set demo_nodes. matches demo_labels (res ! a) n \<and> matches demo_labels (res ! b) n)"
    by blast
  from res have "butlast ?result = res"
    by (simp only: butlast_snoc)
  then have r: "res = [demo_linux, demo_big]"
    by simp
  from free have "0 < (1 :: nat) \<and> 1 < length res \<longrightarrow>
      \<not> (\<exists>n \<in> set demo_nodes. matches demo_labels (res ! 0) n \<and> matches demo_labels (res ! 1) n)"
    by blast
  then have "\<not> (\<exists>n \<in> set demo_nodes. matches demo_labels demo_linux n \<and> matches demo_labels demo_big n)"
    by (simp add: r)
  moreover have "conflict demo_labels demo_nodes demo_linux demo_all"
    using demo_matches by (simp add: conflict_def demo_nodes_def)
  ultimately show ?thesis
    using eq run by simp
qed

end
